theory Spec2Isabelle
  imports Main "HOL-Library.Product_Lexorder"
begin

section \<open>Strings, character classes and the token pattern\<close>

text \<open>
  The program under study is \<^verbatim>\<open>src/telegram_manager/main.py\<close>.  A Python \<^verbatim>\<open>str\<close> is
  modelled as a \<^typ>\<open>string\<close> whose characters are the code points below 256.
  In that range the class \<^verbatim>\<open>\d\<close> of the \<^verbatim>\<open>re\<close> module is exactly the ten ASCII
  digits and \<^verbatim>\<open>\s\<close> is the set of code points for which \<^verbatim>\<open>str.isspace\<close> holds.
\<close>

definition is_digit :: "char \<Rightarrow> bool" where
  "is_digit c = (let n = (of_char c :: nat) in 48 \<le> n \<and> n \<le> 57)"

definition is_space :: "char \<Rightarrow> bool" where
  "is_space c =
     (let n = (of_char c :: nat)
      in (9 \<le> n \<and> n \<le> 13) \<or> (28 \<le> n \<and> n \<le> 32) \<or> n = 133 \<or> n = 160)"

definition lower_char :: "char \<Rightarrow> char" where
  \<comment> \<open>\<^verbatim>\<open>str.lower\<close> on one code point below 256\<close>
  "lower_char c =
     (let n = (of_char c :: nat)
      in if (65 \<le> n \<and> n \<le> 90) \<or> (192 \<le> n \<and> n \<le> 222 \<and> n \<noteq> 215)
         then char_of (n + 32) else c)"

definition lower :: "string \<Rightarrow> string" where
  "lower s = map lower_char s"

text \<open>
  The pattern is \<^verbatim>\<open>(\d+)\s*(mo|w|d|h|m)\<close>.  The matcher below follows the
  backtracking search of \<^verbatim>\<open>re\<close>: the alternation tries its branches from left to
  right, \<^verbatim>\<open>\s*\<close> and \<^verbatim>\<open>\d+\<close> first take as many characters as they can and give
  them back one at a time when the rest of the pattern fails.
\<close>

definition units :: "string list" where
  "units = [''mo'', ''w'', ''d'', ''h'', ''m'']"

fun match_alt :: "string list \<Rightarrow> string \<Rightarrow> (string \<times> string) option" where
  "match_alt [] s = None"
| "match_alt (a # as) s =
     (if take (length a) s = a then Some (a, drop (length a) s) else match_alt as s)"

fun try_spaces :: "nat \<Rightarrow> string \<Rightarrow> (string \<times> string) option" where
  "try_spaces 0 s = match_alt units s"
| "try_spaces (Suc j) s =
     (case match_alt units (drop (Suc j) s) of
        Some r \<Rightarrow> Some r
      | None \<Rightarrow> try_spaces j s)"

definition match_spaces :: "string \<Rightarrow> (string \<times> string) option" where
  "match_spaces s = try_spaces (length (takeWhile is_space s)) s"

fun try_digits :: "nat \<Rightarrow> string \<Rightarrow> (string \<times> string \<times> string) option" where
  "try_digits 0 s = None"
| "try_digits (Suc k) s =
     (case match_spaces (drop (Suc k) s) of
        Some (u, rest) \<Rightarrow> Some (take (Suc k) s, u, rest)
      | None \<Rightarrow> try_digits k s)"

definition match_here :: "string \<Rightarrow> (string \<times> string \<times> string) option" where
  \<comment> \<open>a match of the whole pattern anchored at the head of the string:
      group 1, group 2 and the text after the match\<close>
  "match_here s = try_digits (length (takeWhile is_digit s)) s"

lemma match_alt_shorter:
  "match_alt as s = Some (u, rest) \<Longrightarrow> length rest \<le> length s"
  by (induction as) (auto split: if_splits)

lemma try_spaces_shorter:
  "try_spaces j s = Some (u, rest) \<Longrightarrow> length rest \<le> length s"
proof (induction j)
  case 0
  then show ?case by (simp add: match_alt_shorter)
next
  case (Suc j)
  show ?case
  proof (cases "match_alt units (drop (Suc j) s)")
    case None
    with Suc show ?thesis by simp
  next
    case (Some r)
    with Suc.prems have "match_alt units (drop (Suc j) s) = Some (u, rest)" by simp
    from match_alt_shorter [OF this] show ?thesis by simp
  qed
qed

lemma try_digits_shorter:
  "try_digits k s = Some (v, u, rest) \<Longrightarrow> s \<noteq> [] \<and> length rest < length s"
proof (induction k)
  case 0
  then show ?case by simp
next
  case (Suc k)
  show ?case
  proof (cases "match_spaces (drop (Suc k) s)")
    case None
    with Suc show ?thesis by simp
  next
    case (Some r)
    obtain u' rest' where r: "r = (u', rest')" by (cases r)
    with Some Suc.prems have eq: "u' = u" "rest' = rest" "v = take (Suc k) s" by simp_all
    from Some r eq have "try_spaces (length (takeWhile is_space (drop (Suc k) s))) (drop (Suc k) s)
                          = Some (u, rest)"
      by (simp add: match_spaces_def)
    from try_spaces_shorter [OF this] have le: "length rest \<le> length s - Suc k" by simp
    have "drop (Suc k) s \<noteq> []"
    proof
      assume "drop (Suc k) s = []"
      with Some show False by (simp add: match_spaces_def units_def)
    qed
    then have "Suc k < length s" by simp
    with le show ?thesis by auto
  qed
qed

lemma match_here_shorter:
  "match_here s = Some (v, u, rest) \<Longrightarrow> length rest < length s"
  using try_digits_shorter by (simp add: match_here_def)

function findall :: "string \<Rightarrow> (string \<times> string) list" where
  "findall [] = []"
| "findall (c # cs) =
     (case match_here (c # cs) of
        Some (v, u, rest) \<Rightarrow> (v, u) # findall rest
      | None \<Rightarrow> findall cs)"
  by pat_completeness auto
termination
  by (relation "measure length") (auto dest: match_here_shorter)


section \<open>Exceptions\<close>

text \<open>
  The exceptions the library calls of \<^verbatim>\<open>parse_relative_time_string\<close> can raise.
  The class is the one raised by the pure-Python reference implementation of
  \<^verbatim>\<open>datetime\<close>: \<^verbatim>\<open>OverflowError\<close> when a \<^verbatim>\<open>timedelta\<close> or the date of a sum
  leaves its range, \<^verbatim>\<open>ValueError\<close> when \<^verbatim>\<open>replace\<close> is handed a year outside
  \<^verbatim>\<open>1..9999\<close> or \<^verbatim>\<open>int\<close> is handed a string it does not convert.  Integers are
  unbounded, as in Python, with the two bounds of CPython that a \<^verbatim>\<open>--since\<close> string
  can reach: \<^verbatim>\<open>int\<close> refuses a numeral of more than 4300 digits (the default of
  \<^verbatim>\<open>sys.int_info.default_max_str_digits\<close>) with \<^verbatim>\<open>ValueError\<close>, and \<^verbatim>\<open>replace\<close> takes
  its year as a C \<^verbatim>\<open>int\<close> and raises \<^verbatim>\<open>OverflowError\<close> outside 32 bits.
\<close>

datatype error = ValueError | OverflowError

definition bind :: "error + 'a \<Rightarrow> ('a \<Rightarrow> error + 'b) \<Rightarrow> error + 'b" where
  "bind r f = (case r of Inl e \<Rightarrow> Inl e | Inr x \<Rightarrow> f x)"

definition digit_val :: "char \<Rightarrow> int" where
  "digit_val c = int (of_char c) - 48"

definition MAX_STR_DIGITS :: nat where "MAX_STR_DIGITS = 4300"

definition py_int :: "string \<Rightarrow> error + int" where
  \<comment> \<open>\<^verbatim>\<open>int(value)\<close> on an unsigned decimal numeral; any other string is refused here,
      and so is a numeral of more than \<open>MAX_STR_DIGITS\<close> digits, leading zeros counted\<close>
  "py_int s =
     (if s = [] \<or> \<not> list_all is_digit s then Inl ValueError
      else if length s > MAX_STR_DIGITS then Inl ValueError
      else Inr (foldl (\<lambda>acc c. 10 * acc + digit_val c) 0 s))"

section \<open>The proleptic Gregorian calendar of \<^verbatim>\<open>datetime\<close>\<close>

definition MINYEAR :: int where "MINYEAR = 1"
definition MAXYEAR :: int where "MAXYEAR = 9999"
definition MAXORDINAL :: int where "MAXORDINAL = 3652059"

definition DAYS_IN_MONTH :: "int list" where
  "DAYS_IN_MONTH = [-1, 31, 28, 31, 30, 31, 30, 31, 31, 30, 31, 30, 31]"

definition DAYS_BEFORE_MONTH :: "int list" where
  "DAYS_BEFORE_MONTH = [-1, 0, 31, 59, 90, 120, 151, 181, 212, 243, 273, 304, 334]"

definition is_leap :: "int \<Rightarrow> bool" where
  "is_leap y = (y mod 4 = 0 \<and> (y mod 100 \<noteq> 0 \<or> y mod 400 = 0))"

definition days_before_year :: "int \<Rightarrow> int" where
  "days_before_year y = (let p = y - 1 in p * 365 + p div 4 - p div 100 + p div 400)"

definition days_in_month :: "int \<Rightarrow> int \<Rightarrow> int" where
  "days_in_month y m = (if m = 2 \<and> is_leap y then 29 else DAYS_IN_MONTH ! nat m)"

definition days_before_month :: "int \<Rightarrow> int \<Rightarrow> int" where
  "days_before_month y m =
     DAYS_BEFORE_MONTH ! nat m + (if m > 2 \<and> is_leap y then 1 else 0)"

definition ymd2ord :: "int \<Rightarrow> int \<Rightarrow> int \<Rightarrow> int" where
  "ymd2ord y m d = days_before_year y + days_before_month y m + d"

definition DI400Y :: int where "DI400Y = 146097"
definition DI100Y :: int where "DI100Y = 36524"
definition DI4Y :: int where "DI4Y = 1461"

definition month_day :: "bool \<Rightarrow> int \<Rightarrow> int \<times> int" where
  \<comment> \<open>the last part of \<^verbatim>\<open>_ord2ymd\<close>: month and day of the \<open>n\<close>-th day (from 0) of a year\<close>
  "month_day leapyear n =
     (let m = (n + 50) div 32;
          preceding = DAYS_BEFORE_MONTH ! nat m + (if m > 2 \<and> leapyear then 1 else 0)
      in if preceding > n
         then (m - 1,
               n - (preceding - (DAYS_IN_MONTH ! nat (m - 1)
                                 + (if m - 1 = 2 \<and> leapyear then 1 else 0))) + 1)
         else (m, n - preceding + 1))"

definition ord2ymd :: "int \<Rightarrow> int \<times> int \<times> int" where
  "ord2ymd n0 =
     (let n = n0 - 1;
          n400 = n div DI400Y; n = n mod DI400Y;
          y = n400 * 400 + 1;
          n100 = n div DI100Y; n = n mod DI100Y;
          n4 = n div DI4Y; n = n mod DI4Y;
          n1 = n div 365; n = n mod 365;
          y = y + n100 * 100 + n4 * 4 + n1
      in if n1 = 4 \<or> n100 = 4 then (y - 1, 12, 31)
         else let leapyear = (n1 = 3 \<and> (n4 \<noteq> 24 \<or> n100 = 3));
                  (m, d) = month_day leapyear n
              in (y, m, d))"

section \<open>\<^verbatim>\<open>timedelta\<close>, \<^verbatim>\<open>datetime\<close> and \<^verbatim>\<open>relativedelta\<close>\<close>

record timedelta =
  days :: int
  seconds :: int
  microseconds :: int

definition mk_timedelta ::
    "int \<Rightarrow> int \<Rightarrow> int \<Rightarrow> int \<Rightarrow> int \<Rightarrow> int \<Rightarrow> int \<Rightarrow> error + timedelta" where
  \<comment> \<open>\<^verbatim>\<open>timedelta(days, seconds, microseconds, milliseconds, minutes, hours, weeks)\<close>
      on integers: the constructor normalises and checks the range of the days\<close>
  "mk_timedelta d s us ms mi h w =
     (let d = d + w * 7;
          s = s + mi * 60 + h * 3600;
          us = us + ms * 1000;
          s = s + us div 1000000; us = us mod 1000000;
          d = d + s div 86400; s = s mod 86400
      in if \<bar>d\<bar> > 999999999 then Inl OverflowError
         else Inr \<lparr>days = d, seconds = s, microseconds = us\<rparr>)"

definition timedelta_neg :: "timedelta \<Rightarrow> error + timedelta" where
  "timedelta_neg t = mk_timedelta (- days t) (- seconds t) (- microseconds t) 0 0 0 0"

definition timedelta_add :: "timedelta \<Rightarrow> timedelta \<Rightarrow> error + timedelta" where
  "timedelta_add a b =
     mk_timedelta (days a + days b) (seconds a + seconds b)
       (microseconds a + microseconds b) 0 0 0 0"

record datetime =
  year :: int
  month :: int
  day :: int
  hour :: int
  minute :: int
  second :: int
  microsecond :: int

text \<open>
  The time zone of every instant in the program is UTC (\<^verbatim>\<open>timezone.utc\<close>) and no
  operation changes it, so it is not a field of the record.
\<close>

definition valid_datetime :: "datetime \<Rightarrow> bool" where
  "valid_datetime t =
     (MINYEAR \<le> year t \<and> year t \<le> MAXYEAR \<and> 1 \<le> month t \<and> month t \<le> 12 \<and>
      1 \<le> day t \<and> day t \<le> days_in_month (year t) (month t) \<and>
      0 \<le> hour t \<and> hour t < 24 \<and> 0 \<le> minute t \<and> minute t < 60 \<and>
      0 \<le> second t \<and> second t < 60 \<and> 0 \<le> microsecond t \<and> microsecond t < 1000000)"

definition datetime_le :: "datetime \<Rightarrow> datetime \<Rightarrow> bool" where
  \<comment> \<open>\<^verbatim>\<open>a <= b\<close>: the fields compared as tuples, most significant first\<close>
  "datetime_le a b =
     ((year a, month a, day a, hour a, minute a, second a, microsecond a)
        \<le> (year b, month b, day b, hour b, minute b, second b, microsecond b))"

definition toordinal :: "datetime \<Rightarrow> int" where
  "toordinal t = ymd2ord (year t) (month t) (day t)"

definition datetime_add :: "datetime \<Rightarrow> timedelta \<Rightarrow> error + datetime" where
  \<comment> \<open>\<^verbatim>\<open>datetime.__add__\<close>\<close>
  "datetime_add t other =
     bind (mk_timedelta (toordinal t) (second t) (microsecond t) 0 (minute t) (hour t) 0)
       (\<lambda>delta. bind (timedelta_add delta other)
         (\<lambda>delta.
            let h = seconds delta div 3600; r = seconds delta mod 3600;
                mi = r div 60; s = r mod 60
            in if 0 < days delta \<and> days delta \<le> MAXORDINAL
               then (case ord2ymd (days delta) of
                       (y, m, d) \<Rightarrow>
                         Inr \<lparr>year = y, month = m, day = d, hour = h, minute = mi,
                              second = s, microsecond = microseconds delta\<rparr>)
               else Inl OverflowError))"

definition datetime_sub :: "datetime \<Rightarrow> timedelta \<Rightarrow> error + datetime" where
  \<comment> \<open>\<^verbatim>\<open>datetime.__sub__\<close> with a \<^verbatim>\<open>timedelta\<close>: \<^verbatim>\<open>self + -other\<close>\<close>
  "datetime_sub t other = bind (timedelta_neg other) (datetime_add t)"

definition c_int :: "int \<Rightarrow> bool" where
  \<comment> \<open>the values of a C \<^verbatim>\<open>int\<close>\<close>
  "c_int x = (- 2147483648 \<le> x \<and> x \<le> 2147483647)"

definition replace_date :: "datetime \<Rightarrow> int \<Rightarrow> int \<Rightarrow> int \<Rightarrow> error + datetime" where
  \<comment> \<open>\<^verbatim>\<open>datetime.replace(year=y, month=m, day=d)\<close>: the arguments are read as C
      \<^verbatim>\<open>int\<close>s, then the new fields are checked\<close>
  "replace_date t y m d =
     (if \<not> (c_int y \<and> c_int m \<and> c_int d) then Inl OverflowError
      else if MINYEAR \<le> y \<and> y \<le> MAXYEAR \<and> 1 \<le> m \<and> m \<le> 12 \<and>
         1 \<le> d \<and> d \<le> days_in_month y m
      then Inr (t\<lparr>year := y, month := m, day := d\<rparr>)
      else Inl ValueError)"

record relativedelta =
  years :: int
  months :: int

text \<open>
  Of a \<^verbatim>\<open>relativedelta\<close> only \<^verbatim>\<open>years\<close> and \<^verbatim>\<open>months\<close> are kept: the program
  builds it by \<^verbatim>\<open>relativedelta(months=value)\<close>, which leaves every other relative
  field at 0 and every absolute field unset.  The sign that \<^verbatim>\<open>_fix\<close> takes of the months
  is computed exactly here.  (The releases of the library that take it through a
  \<^verbatim>\<open>float\<close> raise \<^verbatim>\<open>OverflowError\<close> for months beyond the range of a double; such a
  number of months puts the year below the range of a C \<^verbatim>\<open>int\<close>, where \<open>replace_date\<close>
  raises the same \<^verbatim>\<open>OverflowError\<close>.)
\<close>

definition sign :: "int \<Rightarrow> int" where
  "sign x = (if x < 0 then - 1 else 1)"

definition relativedelta_fix :: "relativedelta \<Rightarrow> relativedelta" where
  \<comment> \<open>\<^verbatim>\<open>relativedelta._fix\<close>: months beyond 11 carry into the years\<close>
  "relativedelta_fix r =
     (if \<bar>months r\<bar> > 11
      then let s = sign (months r);
               q = (months r * s) div 12; m = (months r * s) mod 12
           in \<lparr>years = years r + q * s, months = m * s\<rparr>
      else r)"

definition relativedelta_months :: "int \<Rightarrow> relativedelta" where
  "relativedelta_months v = relativedelta_fix \<lparr>years = 0, months = v\<rparr>"

definition relativedelta_neg :: "relativedelta \<Rightarrow> relativedelta" where
  "relativedelta_neg r = relativedelta_fix \<lparr>years = - years r, months = - months r\<rparr>"

definition monthrange_days :: "int \<Rightarrow> int \<Rightarrow> int" where
  \<comment> \<open>\<^verbatim>\<open>calendar.monthrange(year, month)[1]\<close>\<close>
  "monthrange_days y m = DAYS_IN_MONTH ! nat m + (if m = 2 \<and> is_leap y then 1 else 0)"

definition relativedelta_radd :: "relativedelta \<Rightarrow> datetime \<Rightarrow> error + datetime" where
  \<comment> \<open>\<^verbatim>\<open>relativedelta.__radd__\<close> on a \<^verbatim>\<open>datetime\<close>\<close>
  "relativedelta_radd r t =
     (let y = year t + years r;
          m = month t;
          (y, m) = (if months r \<noteq> 0
                    then let m = m + months r
                         in if m > 12 then (y + 1, m - 12)
                            else if m < 1 then (y - 1, m + 12)
                            else (y, m)
                    else (y, m));
          d = min (monthrange_days y m) (day t)
      in bind (replace_date t y m d)
           (\<lambda>t'. bind (mk_timedelta 0 0 0 0 0 0 0) (datetime_add t')))"

definition relativedelta_rsub :: "relativedelta \<Rightarrow> datetime \<Rightarrow> error + datetime" where
  \<comment> \<open>\<^verbatim>\<open>dt - relativedelta\<close>, that is \<^verbatim>\<open>relativedelta.__rsub__\<close>\<close>
  "relativedelta_rsub r t = relativedelta_radd (relativedelta_neg r) t"

section \<open>\<^verbatim>\<open>parse_relative_time_string\<close>\<close>

definition apply_token :: "datetime \<Rightarrow> string \<times> string \<Rightarrow> error + datetime" where
  \<comment> \<open>the body of the \<^verbatim>\<open>for\<close> loop\<close>
  "apply_token now p =
     (case p of (v, u) \<Rightarrow>
        bind (py_int v)
          (\<lambda>v. if u = ''mo'' then relativedelta_rsub (relativedelta_months v) now
                else if u = ''w'' then bind (mk_timedelta 0 0 0 0 0 0 v) (datetime_sub now)
                else if u = ''d'' then bind (mk_timedelta v 0 0 0 0 0 0) (datetime_sub now)
                else if u = ''h'' then bind (mk_timedelta 0 0 0 0 0 v 0) (datetime_sub now)
                else if u = ''m'' then bind (mk_timedelta 0 0 0 0 v 0 0) (datetime_sub now)
                else Inr now))"

fun apply_tokens :: "datetime \<Rightarrow> (string \<times> string) list \<Rightarrow> error + datetime" where
  "apply_tokens now [] = Inr now"
| "apply_tokens now (p # ps) = bind (apply_token now p) (\<lambda>now. apply_tokens now ps)"

definition parse_relative_time_string :: "datetime \<Rightarrow> string \<Rightarrow> error + datetime" where
  \<comment> \<open>the first argument is the value of \<^verbatim>\<open>datetime.now(timezone.utc)\<close>\<close>
  "parse_relative_time_string now0 time_str = apply_tokens now0 (findall (lower time_str))"

section \<open>The \<^verbatim>\<open>fetch\<close> command\<close>

text \<open>
  A \<^verbatim>\<open>Message\<close> of the client library, with the attributes the command reads.
  \<open>sender_username\<close> is \<open>None\<close> when the sender has no \<^verbatim>\<open>username\<close> attribute,
  the case in which \<^verbatim>\<open>getattr\<close> falls back to \<^verbatim>\<open>'Unknown'\<close>.  The date of a Telegram
  message is a Unix time of 32 bits, decades away from both ends of the calendar, so
  that moving it to the local zone for the verbose line cannot fail; the verbose line is
  given by the date it is formatted from.
\<close>

record message =
  msg_id :: int
  date :: datetime
  sender_username :: "string option"
  raw_text :: string
  message_text :: string

text \<open>
  Modelled from the spec: \<^verbatim>\<open>TelegramManager.fetch_messages\<close>, which is imported from
  the package and is not part of the source at hand.  By the specification it takes the
  channel identifier and the filters \<^verbatim>\<open>min_id\<close>, \<^verbatim>\<open>limit\<close> and \<^verbatim>\<open>since_date\<close>, and
  calls, one message at a time and in its own delivery order, either the per-message
  callback or the error callback; a failed message does not stop the fetch.  It is a
  parameter of \<open>fetch\<close>: a function from its arguments to the sequence of callbacks.
\<close>

datatype delivery = Processed message | Failed message

type_synonym fetch_messages =
  "string \<Rightarrow> int option \<Rightarrow> int option \<Rightarrow> datetime option \<Rightarrow> delivery list"

text \<open>
  A line written to standard output, by the \<^verbatim>\<open>print\<close> call that writes it; the
  arguments are the values the line is formatted from.
\<close>

datatype line =
    VerboseLine int datetime string string
  | MessageLine string
  | ErrorLine int
  | SummaryLine datetime "int option"

record fetch_state =
  found_min_id :: "int option"
  stdout :: "line list"

text \<open>
  What a run of the command leaves behind: the state after the fetch loop, with the
  lines printed, and the exception, if any, that ended the command after the loop.
\<close>

record fetch_outcome = fetch_state +
  uncaught :: "error option"

datatype click_exception = BadParameter string error

definition truthy :: "string option \<Rightarrow> bool" where
  \<comment> \<open>the truth value of \<^verbatim>\<open>since\<close>: \<^verbatim>\<open>None\<close> and the empty string are false\<close>
  "truthy since = (case since of None \<Rightarrow> False | Some s \<Rightarrow> s \<noteq> [])"

definition message_processor :: "bool \<Rightarrow> fetch_state \<Rightarrow> message \<Rightarrow> fetch_state" where
  "message_processor verbose st msg =
     (let st = st\<lparr>stdout := stdout st @
                 [if verbose
                  then VerboseLine (msg_id msg) (date msg)
                         (case sender_username msg of None \<Rightarrow> ''Unknown'' | Some u \<Rightarrow> u)
                         (raw_text msg)
                  else MessageLine (message_text msg)]\<rparr>
      in if found_min_id st = None \<or> msg_id msg < the (found_min_id st)
         then st\<lparr>found_min_id := Some (msg_id msg)\<rparr>
         else st)"

definition error_handler :: "fetch_state \<Rightarrow> message \<Rightarrow> fetch_state" where
  "error_handler st msg = st\<lparr>stdout := stdout st @ [ErrorLine (msg_id msg)]\<rparr>"

fun callback :: "bool \<Rightarrow> fetch_state \<Rightarrow> delivery \<Rightarrow> fetch_state" where
  "callback verbose st (Processed msg) = message_processor verbose st msg"
| "callback verbose st (Failed msg) = error_handler st msg"

definition resolve_since :: "datetime \<Rightarrow> string option \<Rightarrow> click_exception + datetime option" where
  \<comment> \<open>the \<^verbatim>\<open>try\<close> block at the head of \<^verbatim>\<open>fetch\<close>\<close>
  "resolve_since now0 since =
     (case since of
        None \<Rightarrow> Inr None
      | Some s \<Rightarrow>
          if s \<noteq> []
          then (case parse_relative_time_string now0 s of
                  Inl e \<Rightarrow> Inl (BadParameter s e)
                | Inr t \<Rightarrow> Inr (Some t))
          else Inr None)"

text \<open>
  The local time zone of the process is a function \<open>gmtoff\<close> from a UTC instant to the
  seconds east of UTC that the platform's \<^verbatim>\<open>localtime\<close> reports for it.
  \<^verbatim>\<open>astimezone()\<close> builds a \<^verbatim>\<open>timezone\<close> of that offset, which must lie strictly
  between minus and plus 24 hours, takes the UTC offset of the instant (zero) off it and
  adds the offset of the zone; the sum raises \<^verbatim>\<open>OverflowError\<close> when the local date lies
  outside the calendar.  \<^verbatim>\<open>localtime\<close> is taken to answer for every instant of the
  calendar, as it does where \<^verbatim>\<open>time_t\<close> has 64 bits.
\<close>

type_synonym zone = "datetime \<Rightarrow> int"

definition astimezone :: "zone \<Rightarrow> datetime \<Rightarrow> error + datetime" where
  "astimezone gmtoff t =
     (if gmtoff t \<le> - 86400 \<or> 86400 \<le> gmtoff t then Inl ValueError
      else bind (mk_timedelta 0 (gmtoff t) 0 0 0 0 0)
             (\<lambda>offset. bind (mk_timedelta 0 0 0 0 0 0 0)
                (\<lambda>myoffset. bind (datetime_sub t myoffset)
                   (\<lambda>utc. datetime_add utc offset))))"

definition fetch ::
    "zone \<Rightarrow> datetime \<Rightarrow> fetch_messages \<Rightarrow> string \<Rightarrow> int option \<Rightarrow> int option
       \<Rightarrow> string option \<Rightarrow> bool \<Rightarrow> click_exception + fetch_outcome" where
  \<comment> \<open>the first argument is the local time zone, the second the clock reading, the third
      the client library.  \<open>Inl\<close> is the parameter error raised before anything runs; an
      exception raised by the last statement is kept in \<open>uncaught\<close>, with what was printed
      before it.\<close>
  "fetch gmtoff now0 tg channel min_id limit since verbose =
     (case resolve_since now0 since of
        Inl e \<Rightarrow> Inl e
      | Inr since_date \<Rightarrow>
          let st = foldl (callback verbose) \<lparr>found_min_id = None, stdout = []\<rparr>
                     (tg channel min_id limit since_date)
          in if truthy since \<and> verbose
             then (case astimezone gmtoff (the since_date) of
                     Inl e \<Rightarrow>
                       Inr \<lparr>found_min_id = found_min_id st, stdout = stdout st,
                            uncaught = Some e\<rparr>
                   | Inr local \<Rightarrow>
                       Inr \<lparr>found_min_id = found_min_id st,
                            stdout = stdout st @ [SummaryLine local (found_min_id st)],
                            uncaught = None\<rparr>)
             else Inr \<lparr>found_min_id = found_min_id st, stdout = stdout st,
                       uncaught = None\<rparr>)"

section \<open>Notions used to state the properties\<close>

definition valid_date :: "int \<Rightarrow> int \<Rightarrow> int \<Rightarrow> bool" where
  "valid_date y m d = (1 \<le> m \<and> m \<le> 12 \<and> 1 \<le> d \<and> d \<le> days_in_month y m)"

definition processed_ids :: "delivery list \<Rightarrow> int list" where
  \<comment> \<open>the identifiers of the messages handed to the per-message callback, in order\<close>
  "processed_ids ds = concat (map (\<lambda>d. case d of Processed m \<Rightarrow> [msg_id m] | Failed m \<Rightarrow> []) ds)"

definition min_id_of :: "int list \<Rightarrow> int option" where
  "min_id_of ids = (if ids = [] then None else Some (Min (set ids)))"

definition is_summary :: "line \<Rightarrow> bool" where
  "is_summary l = (case l of SummaryLine t i \<Rightarrow> True | _ \<Rightarrow> False)"

definition msg :: "int \<Rightarrow> message" where
  \<comment> \<open>a message with a given identifier, for the concrete sessions below\<close>
  "msg i = \<lparr>msg_id = i,
            date = \<lparr>year = 2024, month = 3, day = 31, hour = 12, minute = 0, second = 0,
                    microsecond = 0\<rparr>,
            sender_username = None, raw_text = ''hi'', message_text = ''hi''\<rparr>"

definition session :: "delivery list" where
  "session = [Processed (msg 50), Processed (msg 48), Processed (msg 52)]"

definition clock :: datetime where
  "clock = \<lparr>year = 2024, month = 3, day = 31, hour = 12, minute = 30, second = 15,
             microsecond = 250\<rparr>"

definition instant :: "datetime \<Rightarrow> int" where
  \<comment> \<open>the microseconds between the start of day 0 of the calendar and the instant\<close>
  "instant t =
     (toordinal t * 86400 + hour t * 3600 + minute t * 60 + second t) * 1000000
       + microsecond t"

definition of_instant :: "int \<Rightarrow> datetime" where
  "of_instant z =
     (case ord2ymd (z div 86400000000) of
        (y, m, d) \<Rightarrow>
          \<lparr>year = y, month = m, day = d,
           hour = z div 1000000 mod 86400 div 3600,
           minute = z div 1000000 mod 86400 mod 3600 div 60,
           second = z div 1000000 mod 86400 mod 3600 mod 60,
           microsecond = z mod 1000000\<rparr>)"

definition total_us :: "timedelta \<Rightarrow> int" where
  "total_us t = (days t * 86400 + seconds t) * 1000000 + microseconds t"

definition split_us :: "int \<Rightarrow> timedelta" where
  "split_us x =
     \<lparr>days = x div 86400000000, seconds = x div 1000000 mod 86400,
      microseconds = x mod 1000000\<rparr>"

definition shift :: "datetime \<Rightarrow> int \<Rightarrow> error + datetime" where
  \<comment> \<open>the instant \<open>x\<close> microseconds before \<open>t\<close>, when the calendar reaches that far\<close>
  "shift t x =
     (let z = instant t - x
      in if 1 \<le> z div 86400000000 \<and> z div 86400000000 \<le> MAXORDINAL
         then Inr (of_instant z) else Inl OverflowError)"

definition tod :: "datetime \<Rightarrow> int" where
  "tod t = hour t * 3600 + minute t * 60 + second t"

definition minus_months :: "datetime \<Rightarrow> int \<Rightarrow> error + datetime" where
  \<comment> \<open>calendar subtraction of \<open>v\<close> months: the same day of the month when the target
      month has it, else the last day of the target month\<close>
  "minus_months t v =
     (let k = year t * 12 + (month t - 1) - v; y = k div 12; m = k mod 12 + 1
      in if y < - 2147483648 then Inl OverflowError
         else if y < 1 then Inl ValueError
         else Inr (t\<lparr>year := y, month := m, day := min (days_in_month y m) (day t)\<rparr>))"

definition unit_us :: "string \<Rightarrow> int" where
  \<comment> \<open>the microseconds in one week, day, hour or minute\<close>
  "unit_us u =
     (if u = ''w'' then 604800000000 else if u = ''d'' then 86400000000
      else if u = ''h'' then 3600000000 else 60000000)"

definition digits :: "string \<Rightarrow> bool" where
  "digits v = (v \<noteq> [] \<and> list_all is_digit v)"

definition eastern :: zone where
  \<comment> \<open>a local zone five hours west of UTC all year\<close>
  "eastern = (\<lambda>t. - 18000)"

definition first_half_hour :: datetime where
  "first_half_hour =
     \<lparr>year = 1, month = 1, day = 1, hour = 0, minute = 30, second = 15, microsecond = 250\<rparr>"

definition long_magnitude :: string where
  \<comment> \<open>a numeral of 4301 digits\<close>
  "long_magnitude = replicate 4301 (CHR ''1'')"

definition minus_days :: "datetime \<Rightarrow> int \<Rightarrow> error + datetime" where
  \<comment> \<open>the reference arithmetic \<^verbatim>\<open>T - timedelta(days=n)\<close>\<close>
  "minus_days t n = bind (mk_timedelta n 0 0 0 0 0 0) (datetime_sub t)"

definition silent :: fetch_messages where
  \<comment> \<open>a client library that delivers nothing\<close>
  "silent = (\<lambda>channel min_id limit since_date. [])"

definition deliver_session :: fetch_messages where
  \<comment> \<open>a client library that delivers \<open>session\<close>\<close>
  "deliver_session = (\<lambda>channel min_id limit since_date. session)"

section \<open>Calendar arithmetic\<close>


lemma div_step:
  fixes p k :: int
  assumes "0 < k"
  shows "(p + 1) div k = p div k + (if (p + 1) mod k = 0 then 1 else 0)"
proof -
  define q r where "q = p div k" and "r = p mod k"
  have p: "p = k * q + r" and r: "0 \<le> r" "r < k" using assms by (simp_all add: q_def r_def)
  show ?thesis
  proof (cases "r = k - 1")
    case True
    then have "p + 1 = k * (q + 1) + 0" using p by (simp add: algebra_simps)
    then have "(p + 1) div k = q + 1" "(p + 1) mod k = 0" using assms
      by (metis int_div_pos_eq order_refl, metis int_mod_pos_eq order_refl)
    then show ?thesis by (simp add: q_def)
  next
    case False
    then have *: "p + 1 = k * q + (r + 1)" "0 \<le> r + 1" "r + 1 < k" using p r by simp_all
    then have "(p + 1) div k = q" "(p + 1) mod k = r + 1"
      by (metis int_div_pos_eq, metis int_mod_pos_eq)
    then show ?thesis using r by (simp add: q_def)
  qed
qed

lemma mod_100_imp_4: "y mod 100 = 0 \<Longrightarrow> y mod 4 = 0" for y :: int
  using mod_mod_cancel [of 4 100 y] by simp

lemma mod_400_imp_100: "y mod 400 = 0 \<Longrightarrow> y mod 100 = 0" for y :: int
  using mod_mod_cancel [of 100 400 y] by simp

lemma days_before_year_step:
  "days_before_year (y + 1) = days_before_year y + (if is_leap y then 366 else 365)"
proof -
  define p where "p = y - 1"
  have y: "y = p + 1" by (simp add: p_def)
  have s4: "(p + 1) div 4 = p div 4 + (if y mod 4 = 0 then 1 else 0)"
    using div_step [of 4 p] by (simp add: y)
  have s100: "(p + 1) div 100 = p div 100 + (if y mod 100 = 0 then 1 else 0)"
    using div_step [of 100 p] by (simp add: y)
  have s400: "(p + 1) div 400 = p div 400 + (if y mod 400 = 0 then 1 else 0)"
    using div_step [of 400 p] by (simp add: y)
  have lhs: "days_before_year (y + 1) = (p + 1) * 365 + (p + 1) div 4 - (p + 1) div 100 + (p + 1) div 400"
    by (simp add: days_before_year_def y Let_def algebra_simps)
  have rhs: "days_before_year y = p * 365 + p div 4 - p div 100 + p div 400"
    by (simp add: days_before_year_def y Let_def)
  consider (a) "y mod 4 \<noteq> 0" | (b) "y mod 4 = 0" "y mod 100 \<noteq> 0"
    | (c) "y mod 100 = 0" "y mod 400 \<noteq> 0" | (d) "y mod 400 = 0"
    by argo
  then show ?thesis
  proof cases
    case a
    then have "y mod 100 \<noteq> 0" "y mod 400 \<noteq> 0"
      using mod_100_imp_4 [of y] mod_400_imp_100 [of y] by argo+
    with a have "\<not> is_leap y" by (simp add: is_leap_def)
    then show ?thesis
      unfolding lhs rhs s4 s100 s400 using a \<open>y mod 100 \<noteq> 0\<close> \<open>y mod 400 \<noteq> 0\<close> by simp
  next
    case b
    then have "y mod 400 \<noteq> 0" using mod_400_imp_100 [of y] by argo
    with b have "is_leap y" by (simp add: is_leap_def)
    then show ?thesis
      unfolding lhs rhs s4 s100 s400 using b \<open>y mod 400 \<noteq> 0\<close> by simp
  next
    case c
    then have "y mod 4 = 0" using mod_100_imp_4 [of y] by argo
    with c have "\<not> is_leap y" by (simp add: is_leap_def)
    then show ?thesis
      unfolding lhs rhs s4 s100 s400 using c \<open>y mod 4 = 0\<close> by simp
  next
    case d
    then have "y mod 100 = 0" "y mod 4 = 0"
      using mod_100_imp_4 [of y] mod_400_imp_100 [of y] by argo+
    with d have "is_leap y" by (simp add: is_leap_def)
    then show ?thesis
      unfolding lhs rhs s4 s100 s400 using d \<open>y mod 100 = 0\<close> \<open>y mod 4 = 0\<close> by simp
  qed
qed

lemma days_before_year_mono: "y \<le> y' \<Longrightarrow> days_before_year y \<le> days_before_year y'"
proof (induction y' rule: int_ge_induct)
  case base
  show ?case by simp
next
  case (step i)
  then show ?case by (simp add: days_before_year_step)
qed

lemma month_cases:
  fixes m :: int
  assumes "1 \<le> m" "m \<le> 12"
  shows "m = 1 \<or> m = 2 \<or> m = 3 \<or> m = 4 \<or> m = 5 \<or> m = 6 \<or> m = 7 \<or> m = 8 \<or> m = 9
           \<or> m = 10 \<or> m = 11 \<or> m = 12"
  using assms by arith

lemma days_in_month_bounds:
  assumes "1 \<le> m" "m \<le> 12"
  shows "28 \<le> days_in_month y m \<and> days_in_month y m \<le> 31"
  using month_cases [OF assms]
  by (elim disjE) (simp_all add: days_in_month_def DAYS_IN_MONTH_def)

lemma days_before_month_next:
  assumes "1 \<le> m" "m < 12"
  shows "days_before_month y (m + 1) = days_before_month y m + days_in_month y m"
proof -
  from assms have "m = 1 \<or> m = 2 \<or> m = 3 \<or> m = 4 \<or> m = 5 \<or> m = 6 \<or> m = 7 \<or> m = 8 \<or> m = 9
           \<or> m = 10 \<or> m = 11" by arith
  then show ?thesis
    by (elim disjE)
       (simp_all add: days_before_month_def days_in_month_def DAYS_IN_MONTH_def
          DAYS_BEFORE_MONTH_def)
qed

lemma days_before_month_last:
  "days_before_month y 12 + days_in_month y 12 = (if is_leap y then 366 else 365)"
  by (simp add: days_before_month_def days_in_month_def DAYS_IN_MONTH_def DAYS_BEFORE_MONTH_def)

lemma days_before_month_first: "days_before_month y 1 = 0"
  by (simp add: days_before_month_def DAYS_BEFORE_MONTH_def)


lemma days_before_month_nonneg:
  assumes "1 \<le> m" "m \<le> 12"
  shows "0 \<le> days_before_month y m"
  using month_cases [OF assms]
  by (elim disjE) (simp_all add: days_before_month_def DAYS_BEFORE_MONTH_def)

lemma days_before_month_mono:
  assumes "m \<le> m'" "1 \<le> m" "m' \<le> 12"
  shows "days_before_month y m \<le> days_before_month y m'"
  using assms
proof (induction m' rule: int_ge_induct)
  case base
  show ?case by simp
next
  case (step i)
  then have "days_before_month y (i + 1) = days_before_month y i + days_in_month y i"
    by (intro days_before_month_next) auto
  moreover have "28 \<le> days_in_month y i" using days_in_month_bounds [of i y] step by auto
  ultimately show ?case using step by auto
qed

lemma days_before_month_end:
  assumes "1 \<le> m" "m \<le> 12"
  shows "days_before_month y m + days_in_month y m \<le> (if is_leap y then 366 else 365)"
proof (cases "m = 12")
  case True
  then show ?thesis using days_before_month_last [of y] by simp
next
  case False
  with assms have "days_before_month y (m + 1) = days_before_month y m + days_in_month y m"
    by (intro days_before_month_next) auto
  moreover have "days_before_month y (m + 1) \<le> days_before_month y 12"
    using assms False by (intro days_before_month_mono) auto
  moreover have "28 \<le> days_in_month y 12" using days_in_month_bounds [of 12 y] by simp
  ultimately show ?thesis using days_before_month_last [of y] by (auto split: if_splits)
qed

lemma ymd2ord_bounds:
  assumes "valid_date y m d"
  shows "days_before_year y < ymd2ord y m d \<and> ymd2ord y m d \<le> days_before_year (y + 1)"
proof -
  from assms have m: "1 \<le> m" "m \<le> 12" and d: "1 \<le> d" "d \<le> days_in_month y m"
    by (simp_all add: valid_date_def)
  show ?thesis
    using days_before_month_nonneg [OF m, of y] days_before_month_end [OF m, of y] d
    by (simp add: ymd2ord_def days_before_year_step)
qed

lemma ymd2ord_less:
  assumes a: "valid_date y m d" and b: "valid_date y' m' d'"
    and lt: "(y, m, d) < (y', m', d')"
  shows "ymd2ord y m d < ymd2ord y' m' d'"
proof -
  from lt consider (year) "y < y'" | (month) "y = y'" "m < m'" | (day) "y = y'" "m = m'" "d < d'"
    by (auto simp: less_prod_def')
  then show ?thesis
  proof cases
    case year
    then have "days_before_year (y + 1) \<le> days_before_year y'"
      by (intro days_before_year_mono) simp
    with ymd2ord_bounds [OF a] ymd2ord_bounds [OF b] show ?thesis by linarith
  next
    case month
    from a b month have mm: "1 \<le> m" "m < 12" "m + 1 \<le> m'" "m' \<le> 12"
      by (simp_all add: valid_date_def)
    then have "days_before_month y (m + 1) \<le> days_before_month y m'"
      by (intro days_before_month_mono) auto
    moreover have "days_before_month y (m + 1) = days_before_month y m + days_in_month y m"
      using mm by (intro days_before_month_next) auto
    ultimately show ?thesis
      using a b month by (simp add: ymd2ord_def valid_date_def)
  next
    case day
    then show ?thesis by (simp add: ymd2ord_def)
  qed
qed

lemma ymd2ord_inject:
  assumes a: "valid_date y m d" and b: "valid_date y' m' d'"
    and eq: "ymd2ord y m d = ymd2ord y' m' d'"
  shows "(y, m, d) = (y', m', d')"
proof (rule ccontr)
  assume "(y, m, d) \<noteq> (y', m', d')"
  then have "(y, m, d) < (y', m', d') \<or> (y', m', d') < (y, m, d)" by (rule neqE) auto
  then show False
    using ymd2ord_less [OF a b] ymd2ord_less [OF b a] eq by auto
qed



lemma days_before_year_decomp:
  assumes "0 \<le> b" "b < 4" "0 \<le> c" "c < 25" "0 \<le> d" "d < 4"
  shows "days_before_year (400 * a + 100 * b + 4 * c + d + 1)
           = 146097 * a + 36524 * b + 1461 * c + 365 * d"
proof -
  define p where "p = 400 * a + 100 * b + 4 * c + d"
  have "p = 4 * (100 * a + 25 * b + c) + d" by (simp add: p_def)
  from int_div_pos_eq [OF this] assms have d4: "p div 4 = 100 * a + 25 * b + c" by simp
  have "p = 100 * (4 * a + b) + (4 * c + d)" by (simp add: p_def)
  from int_div_pos_eq [OF this] assms have d100: "p div 100 = 4 * a + b" by simp
  have "p = 400 * a + (100 * b + 4 * c + d)" by (simp add: p_def)
  from int_div_pos_eq [OF this] assms have d400: "p div 400 = a" by simp
  have "days_before_year (p + 1) = p * 365 + p div 4 - p div 100 + p div 400"
    by (simp add: days_before_year_def Let_def)
  also have "\<dots> = 146097 * a + 36524 * b + 1461 * c + 365 * d"
    unfolding d4 d100 d400 by (simp add: p_def)
  finally show ?thesis by (simp add: p_def)
qed

lemma is_leap_decomp:
  assumes "0 \<le> b" "b < 4" "0 \<le> c" "c < 25" "0 \<le> d" "d < 4"
  shows "is_leap (400 * a + 100 * b + 4 * c + d + 1) = (d = 3 \<and> (c \<noteq> 24 \<or> b = 3))"
proof -
  define y where "y = 400 * a + 100 * b + 4 * c + d + 1"
  have "is_leap y = (d = 3 \<and> (c \<noteq> 24 \<or> b = 3))"
  proof (cases "d = 3")
    case False
    have "y = 4 * (100 * a + 25 * b + c) + (d + 1)" by (simp add: y_def)
    from int_mod_pos_eq [OF this] assms False have "y mod 4 = d + 1" by simp
    with assms False show ?thesis by (simp add: is_leap_def)
  next
    case d3: True
    have "y = 4 * (100 * a + 25 * b + c + 1) + 0" by (simp add: y_def d3)
    from int_mod_pos_eq [OF this] have m4: "y mod 4 = 0" by simp
    show ?thesis
    proof (cases "c = 24")
      case False
      have "y = 100 * (4 * a + b) + 4 * (c + 1)" by (simp add: y_def d3)
      from int_mod_pos_eq [OF this] assms False have "y mod 100 = 4 * (c + 1)" by simp
      with assms False m4 d3 show ?thesis by (simp add: is_leap_def)
    next
      case c24: True
      have "y = 100 * (4 * a + b + 1) + 0" by (simp add: y_def d3 c24)
      from int_mod_pos_eq [OF this] have m100: "y mod 100 = 0" by simp
      show ?thesis
      proof (cases "b = 3")
        case False
        have "y = 400 * a + 100 * (b + 1)" by (simp add: y_def d3 c24)
        from int_mod_pos_eq [OF this] assms False have "y mod 400 = 100 * (b + 1)" by simp
        with assms False m4 m100 d3 c24 show ?thesis by (simp add: is_leap_def)
      next
        case True
        have "y = 400 * (a + 1) + 0" by (simp add: y_def d3 c24 True)
        from int_mod_pos_eq [OF this] have "y mod 400 = 0" by simp
        with m4 m100 d3 c24 True show ?thesis by (simp add: is_leap_def)
      qed
    qed
  qed
  then show ?thesis by (simp add: y_def)
qed

lemma month_day_correct:
  assumes "0 \<le> n" "n < (if leap then 366 else 365)" "month_day leap n = (m, d)"
  shows "1 \<le> m \<and> m \<le> 12 \<and> 1 \<le> d
         \<and> d \<le> DAYS_IN_MONTH ! nat m + (if m = 2 \<and> leap then 1 else 0)
         \<and> DAYS_BEFORE_MONTH ! nat m + (if m > 2 \<and> leap then 1 else 0) + d = n + 1"
proof -
  define k where "k = (n + 50) div 32"
  have "n + 50 = 32 * k + (n + 50) mod 32" by (simp add: k_def)
  moreover have "0 \<le> (n + 50) mod 32" "(n + 50) mod 32 < 32" by simp_all
  ultimately have kb: "32 * k \<le> n + 50" "n + 50 < 32 * k + 32" by linarith+
  with assms(1,2) have "1 \<le> k" "k \<le> 12" by (auto split: if_splits)
  from month_cases [OF this] show ?thesis
    using kb assms
    by (elim disjE)
       (simp_all add: month_day_def k_def [symmetric] Let_def DAYS_BEFORE_MONTH_def
          DAYS_IN_MONTH_def split: if_splits)
qed



lemma ord2ymd_correct:
  assumes n: "1 \<le> n" and res: "ord2ymd n = (y, m, d)"
  shows "1 \<le> y \<and> valid_date y m d \<and> ymd2ord y m d = n"
proof -
  define a where "a = (n - 1) div 146097"
  define r400 where "r400 = (n - 1) mod 146097"
  define b where "b = r400 div 36524"
  define r100 where "r100 = r400 mod 36524"
  define c where "c = r100 div 1461"
  define r4 where "r4 = r100 mod 1461"
  define d1 where "d1 = r4 div 365"
  define e where "e = r4 mod 365"
  have e1: "n - 1 = 146097 * a + r400" and b1: "0 \<le> r400" "r400 < 146097"
    by (simp_all add: a_def r400_def)
  have e2: "r400 = 36524 * b + r100" and b2: "0 \<le> r100" "r100 < 36524"
    by (simp_all add: b_def r100_def)
  have e3: "r100 = 1461 * c + r4" and b3: "0 \<le> r4" "r4 < 1461"
    by (simp_all add: c_def r4_def)
  have e4: "r4 = 365 * d1 + e" and be: "0 \<le> e" "e < 365"
    by (simp_all add: d1_def e_def)
  have a0: "0 \<le> a" using n by (simp add: a_def pos_imp_zdiv_nonneg_iff)
  have bb: "0 \<le> b" "b \<le> 4" using e2 b1 b2 by linarith+
  have cb: "0 \<le> c" "c \<le> 24" using e3 b2 b3 by linarith+
  have db: "0 \<le> d1" "d1 \<le> 4" using e4 b3 be by linarith+
  have total: "n = 146097 * a + 36524 * b + 1461 * c + 365 * d1 + e + 1"
    using e1 e2 e3 e4 by linarith
  define y0 where "y0 = 400 * a + 100 * b + 4 * c + d1 + 1"
  define leap where "leap = (d1 = 3 \<and> (c \<noteq> 24 \<or> b = 3))"
  have unfolded: "ord2ymd n =
      (if d1 = 4 \<or> b = 4 then (y0 - 1, 12, 31)
       else case month_day leap e of (m, d) \<Rightarrow> (y0, m, d))"
    by (simp add: ord2ymd_def Let_def DI400Y_def DI100Y_def DI4Y_def a_def r400_def b_def
          r100_def c_def r4_def d1_def e_def y0_def leap_def algebra_simps)
  show ?thesis
  proof (cases "b = 4")
    case True
    with e2 b1 b2 have "r100 = 0" by linarith
    with e3 e4 b3 be cb db have z: "c = 0" "d1 = 0" "e = 0" by linarith+
    from unfolded res True have r: "y = y0 - 1" "m = 12" "d = 31" by simp_all
    have y: "y = 400 * a + 100 * 3 + 4 * 24 + 3 + 1" by (simp add: r y0_def True z)
    have "days_before_year y = 146097 * a + 36524 * 3 + 1461 * 24 + 365 * 3"
      unfolding y by (rule days_before_year_decomp) simp_all
    moreover have "is_leap y"
      unfolding y by (subst is_leap_decomp) simp_all
    ultimately show ?thesis
      using a0 total True z r
      by (simp add: valid_date_def ymd2ord_def days_in_month_def days_before_month_def
            DAYS_IN_MONTH_def DAYS_BEFORE_MONTH_def y)
  next
    case b4: False
    with bb have bb': "b < 4" by simp
    show ?thesis
    proof (cases "d1 = 4")
      case True
      with e4 b3 be have e0: "e = 0" by linarith
      with e4 True have "r4 = 1460" by simp
      with e3 b2 have c23: "c < 24" by linarith
      from unfolded res True have r: "y = y0 - 1" "m = 12" "d = 31" by simp_all
      have y: "y = 400 * a + 100 * b + 4 * c + 3 + 1" by (simp add: r y0_def True)
      have "days_before_year y = 146097 * a + 36524 * b + 1461 * c + 365 * 3"
        unfolding y by (rule days_before_year_decomp) (use bb bb' cb c23 in simp_all)
      moreover have "is_leap y"
        unfolding y by (subst is_leap_decomp) (use bb bb' cb c23 in simp_all)
      ultimately show ?thesis
        using a0 bb cb total True e0 r
        by (simp add: valid_date_def ymd2ord_def days_in_month_def days_before_month_def
              DAYS_IN_MONTH_def DAYS_BEFORE_MONTH_def y)
    next
      case False
      with db have db': "d1 < 4" by simp
      obtain m' d' where md: "month_day leap e = (m', d')" by (cases "month_day leap e")
      from unfolded res b4 False md have r: "y = y0" "m = m'" "d = d'" by simp_all
      have c25: "c < 25" using cb by simp
      have dby: "days_before_year y0 = 146097 * a + 36524 * b + 1461 * c + 365 * d1"
        unfolding y0_def by (rule days_before_year_decomp) (use bb bb' cb c25 db db' in simp_all)
      have lp: "is_leap y0 = leap"
        unfolding y0_def leap_def
        by (rule is_leap_decomp) (use bb bb' cb c25 db db' in simp_all)
      have "e < (if leap then 366 else 365)" using be by simp
      from month_day_correct [OF be(1) this md]
      have mc: "1 \<le> m'" "m' \<le> 12" "1 \<le> d'"
        "d' \<le> DAYS_IN_MONTH ! nat m' + (if m' = 2 \<and> leap then 1 else 0)"
        "DAYS_BEFORE_MONTH ! nat m' + (if m' > 2 \<and> leap then 1 else 0) + d' = e + 1"
        by simp_all
      have dim: "days_in_month y0 m' = DAYS_IN_MONTH ! nat m' + (if m' = 2 \<and> leap then 1 else 0)"
        by (simp add: days_in_month_def lp DAYS_IN_MONTH_def)
      have "1 \<le> y" using a0 bb cb db by (simp add: r y0_def)
      moreover have "valid_date y m d" using mc dim by (simp add: valid_date_def r)
      moreover have "ymd2ord y m d = n"
        using mc(5) dby total by (simp add: ymd2ord_def days_before_month_def lp r)
      ultimately show ?thesis by simp
    qed
  qed
qed



lemma days_before_year_1: "days_before_year 1 = 0"
  by (simp add: days_before_year_def)

lemma days_before_year_10000: "days_before_year 10000 = 3652059"
  by (simp add: days_before_year_def)

lemma ymd2ord_range:
  assumes "valid_date y m d" "1 \<le> y" "y \<le> 9999"
  shows "1 \<le> ymd2ord y m d \<and> ymd2ord y m d \<le> MAXORDINAL"
proof -
  have "days_before_year 1 \<le> days_before_year y"
    using assms by (intro days_before_year_mono) simp
  moreover have "days_before_year (y + 1) \<le> days_before_year 10000"
    using assms by (intro days_before_year_mono) simp
  ultimately show ?thesis
    using ymd2ord_bounds [OF assms(1)]
    by (simp add: days_before_year_1 days_before_year_10000 MAXORDINAL_def)
qed

lemma ord2ymd_year_le:
  assumes "1 \<le> n" "n \<le> MAXORDINAL" "ord2ymd n = (y, m, d)"
  shows "y \<le> 9999"
proof (rule ccontr)
  assume "\<not> y \<le> 9999"
  then have "days_before_year 10000 \<le> days_before_year y"
    by (intro days_before_year_mono) simp
  moreover from ord2ymd_correct [OF assms(1,3)]
  have "days_before_year y < n" using ymd2ord_bounds [of y m d] by auto
  ultimately show False using assms(2) by (simp add: days_before_year_10000 MAXORDINAL_def)
qed

lemma ord2ymd_ymd2ord:
  assumes v: "valid_date y m d" and y: "1 \<le> y"
  shows "ord2ymd (ymd2ord y m d) = (y, m, d)"
proof -
  obtain y' m' d' where r: "ord2ymd (ymd2ord y m d) = (y', m', d')"
    by (cases "ord2ymd (ymd2ord y m d)")
  have "days_before_year 1 \<le> days_before_year y"
    using y by (intro days_before_year_mono) simp
  with ymd2ord_bounds [OF v] have "1 \<le> ymd2ord y m d" by (simp add: days_before_year_1)
  from ord2ymd_correct [OF this r] have "valid_date y' m' d'" "ymd2ord y' m' d' = ymd2ord y m d"
    by simp_all
  from ymd2ord_inject [OF this(1) v this(2)] r show ?thesis by simp
qed

section \<open>Arithmetic of instants\<close>


lemma div_day: "x div 86400000000 = x div 1000000 div 86400" for x :: int
  using zdiv_zmult2_eq [of 86400 x 1000000] by simp

lemma total_us_split_us: "total_us (split_us x) = x"
proof -
  have "x div 1000000 div 86400 * 86400 + x div 1000000 mod 86400 = x div 1000000"
    by simp
  then have "(x div 86400000000 * 86400 + x div 1000000 mod 86400) * 1000000 + x mod 1000000
             = x div 1000000 * 1000000 + x mod 1000000"
    by (simp only: div_day)
  then show ?thesis by (simp add: total_us_def split_us_def)
qed

lemma mk_timedelta_eq:
  "mk_timedelta d s us ms mi h w =
     (let x = ((d + w * 7) * 86400 + s + mi * 60 + h * 3600) * 1000000 + us + ms * 1000
      in if \<bar>x div 86400000000\<bar> > 999999999 then Inl OverflowError else Inr (split_us x))"
proof -
  define d0 where "d0 = d + w * 7"
  define s0 where "s0 = s + mi * 60 + h * 3600"
  define us0 where "us0 = us + ms * 1000"
  define x where "x = (d0 * 86400 + s0) * 1000000 + us0"
  have x1: "x div 1000000 = d0 * 86400 + s0 + us0 div 1000000"
    unfolding x_def by (subst div_mult_self3) simp_all
  have x2: "x mod 1000000 = us0 mod 1000000"
    unfolding x_def by (simp only: mod_mult_self3)
  have x3: "x div 1000000 div 86400 = d0 + (s0 + us0 div 1000000) div 86400"
    unfolding x1 by (simp add: add.assoc)
  have x4: "x div 1000000 mod 86400 = (s0 + us0 div 1000000) mod 86400"
    unfolding x1 by (simp add: add.assoc)
  have "mk_timedelta d s us ms mi h w =
      (if \<bar>d0 + (s0 + us0 div 1000000) div 86400\<bar> > 999999999 then Inl OverflowError
       else Inr \<lparr>days = d0 + (s0 + us0 div 1000000) div 86400,
                 seconds = (s0 + us0 div 1000000) mod 86400,
                 microseconds = us0 mod 1000000\<rparr>)"
    by (simp add: mk_timedelta_def Let_def d0_def s0_def us0_def)
  also have "\<dots> = (if \<bar>x div 86400000000\<bar> > 999999999 then Inl OverflowError
                    else Inr (split_us x))"
    by (simp only: split_us_def div_day x2 x3 x4)
  finally show ?thesis
    by (simp add: Let_def x_def d0_def s0_def us0_def algebra_simps)
qed

lemma timedelta_neg_split:
  "timedelta_neg (split_us x) =
     (if \<bar>(- x) div 86400000000\<bar> > 999999999 then Inl OverflowError
      else Inr (split_us (- x)))"
proof -
  have "((- days (split_us x)) * 86400 + (- seconds (split_us x))) * 1000000
          + (- microseconds (split_us x)) = - total_us (split_us x)"
    by (simp add: total_us_def algebra_simps)
  then show ?thesis
    by (simp add: timedelta_neg_def mk_timedelta_eq Let_def total_us_split_us)
qed

lemma timedelta_add_split:
  "timedelta_add (split_us x) (split_us y) =
     (if \<bar>(x + y) div 86400000000\<bar> > 999999999 then Inl OverflowError
      else Inr (split_us (x + y)))"
proof -
  have "((days (split_us x) + days (split_us y)) * 86400
           + (seconds (split_us x) + seconds (split_us y))) * 1000000
          + (microseconds (split_us x) + microseconds (split_us y))
        = total_us (split_us x) + total_us (split_us y)"
    by (simp add: total_us_def algebra_simps)
  then show ?thesis
    by (simp add: timedelta_add_def mk_timedelta_eq Let_def total_us_split_us)
qed



lemma div_bounds:
  fixes a k :: int
  assumes "0 < k"
  shows "k * (a div k) \<le> a \<and> a < k * (a div k) + k"
proof -
  have "a = k * (a div k) + a mod k" by simp
  moreover have "0 \<le> a mod k" "a mod k < k" using assms by simp_all
  ultimately show ?thesis by linarith
qed

lemma valid_datetime_date:
  "valid_datetime t \<Longrightarrow> valid_date (year t) (month t) (day t) \<and> 1 \<le> year t \<and> year t \<le> 9999"
  by (simp add: valid_datetime_def valid_date_def MINYEAR_def MAXYEAR_def)

lemma toordinal_range:
  "valid_datetime t \<Longrightarrow> 1 \<le> toordinal t \<and> toordinal t \<le> MAXORDINAL"
  using valid_datetime_date [of t] ymd2ord_range [of "year t" "month t" "day t"]
  by (simp add: toordinal_def)

lemma tod_range: "valid_datetime t \<Longrightarrow> 0 \<le> tod t \<and> tod t < 86400"
  by (simp add: valid_datetime_def tod_def)

lemma instant_tod: "instant t = (toordinal t * 86400 + tod t) * 1000000 + microsecond t"
  by (simp add: instant_def tod_def algebra_simps)

lemma instant_parts:
  assumes "valid_datetime t"
  shows "instant t mod 1000000 = microsecond t"
    and "instant t div 1000000 = toordinal t * 86400 + tod t"
    and "instant t div 1000000 mod 86400 = tod t"
    and "instant t div 86400000000 = toordinal t"
proof -
  have us: "0 \<le> microsecond t" "microsecond t < 1000000"
    using assms by (simp_all add: valid_datetime_def)
  note td = tod_range [OF assms]
  show a: "instant t mod 1000000 = microsecond t"
    by (rule int_mod_pos_eq [of _ _ "toordinal t * 86400 + tod t"])
       (use us in \<open>simp_all add: instant_tod\<close>)
  show b: "instant t div 1000000 = toordinal t * 86400 + tod t"
    by (rule int_div_pos_eq [of _ _ _ "microsecond t"])
       (use us in \<open>simp_all add: instant_tod\<close>)
  show c: "instant t div 1000000 mod 86400 = tod t"
    unfolding b by (rule int_mod_pos_eq [of _ _ "toordinal t"]) (use td in simp_all)
  show "instant t div 86400000000 = toordinal t"
    unfolding div_day b by (rule int_div_pos_eq [of _ _ _ "tod t"]) (use td in simp_all)
qed

lemma split_us_instant:
  assumes "valid_datetime t"
  shows "split_us (instant t)
           = \<lparr>days = toordinal t, seconds = tod t, microseconds = microsecond t\<rparr>"
  by (simp add: split_us_def instant_parts(1,3,4) [OF assms])

lemma tod_fields:
  assumes "valid_datetime t"
  shows "tod t div 3600 = hour t" "tod t mod 3600 div 60 = minute t"
    "tod t mod 3600 mod 60 = second t"
proof -
  have b: "0 \<le> minute t" "minute t < 60" "0 \<le> second t" "second t < 60"
    using assms by (simp_all add: valid_datetime_def)
  have r: "tod t mod 3600 = minute t * 60 + second t"
    by (rule int_mod_pos_eq [of _ _ "hour t"]) (use b in \<open>simp_all add: tod_def\<close>)
  show "tod t div 3600 = hour t"
    by (rule int_div_pos_eq [of _ _ _ "minute t * 60 + second t"])
       (use b in \<open>simp_all add: tod_def\<close>)
  show "tod t mod 3600 div 60 = minute t"
    unfolding r by (rule int_div_pos_eq [of _ _ _ "second t"]) (use b in simp_all)
  show "tod t mod 3600 mod 60 = second t"
    unfolding r by (rule int_mod_pos_eq [of _ _ "minute t"]) (use b in simp_all)
qed

lemma of_instant_instant:
  assumes "valid_datetime t"
  shows "of_instant (instant t) = t"
proof -
  from valid_datetime_date [OF assms]
  have "ord2ymd (toordinal t) = (year t, month t, day t)"
    unfolding toordinal_def by (intro ord2ymd_ymd2ord) simp_all
  then show ?thesis
    by (simp add: of_instant_def instant_parts(1,3,4) [OF assms] tod_fields [OF assms])
qed

lemma of_instant_valid:
  assumes "1 \<le> z div 86400000000" "z div 86400000000 \<le> MAXORDINAL"
  shows "valid_datetime (of_instant z)" and "instant (of_instant z) = z"
proof -
  define n where "n = z div 86400000000"
  define s where "s = z div 1000000 mod 86400"
  obtain y m d where r: "ord2ymd n = (y, m, d)" by (cases "ord2ymd n")
  from assms have n: "1 \<le> n" "n \<le> MAXORDINAL" by (simp_all add: n_def)
  from ord2ymd_correct [OF n(1) r] have c: "1 \<le> y" "valid_date y m d" "ymd2ord y m d = n"
    by simp_all
  from ord2ymd_year_le [OF n r] have y: "y \<le> 9999" .
  have sb: "0 \<le> s" "s < 86400" by (simp_all add: s_def)
  have of: "of_instant z = \<lparr>year = y, month = m, day = d, hour = s div 3600,
      minute = s mod 3600 div 60, second = s mod 3600 mod 60, microsecond = z mod 1000000\<rparr>"
    by (simp add: of_instant_def n_def [symmetric] r s_def)
  have h: "0 \<le> s div 3600" "s div 3600 < 24"
    using sb div_bounds [of 3600 s] by linarith+
  have "0 \<le> s mod 3600" "s mod 3600 < 3600" by simp_all
  then have mi: "0 \<le> s mod 3600 div 60" "s mod 3600 div 60 < 60"
    using div_bounds [of 60 "s mod 3600"] by linarith+
  show "valid_datetime (of_instant z)"
    using c y h mi by (simp add: of valid_datetime_def valid_date_def MINYEAR_def MAXYEAR_def)
  have "s div 3600 * 3600 + (s mod 3600 div 60 * 60 + s mod 3600 mod 60) = s"
    by simp
  then have "instant (of_instant z) = (n * 86400 + s) * 1000000 + z mod 1000000"
    by (simp add: of instant_def toordinal_def c add.assoc)
  also have "\<dots> = total_us (split_us z)"
    by (simp add: total_us_def split_us_def n_def s_def)
  finally show "instant (of_instant z) = z" by (simp add: total_us_split_us)
qed



lemma instant_range:
  assumes "valid_datetime t"
  shows "86400000000 \<le> instant t \<and> instant t < 86400000000 * (MAXORDINAL + 1)"
  using div_bounds [of 86400000000 "instant t"] toordinal_range [OF assms]
    instant_parts(4) [OF assms]
  by (simp add: MAXORDINAL_def)

lemma datetime_add_shift:
  assumes "valid_datetime t"
  shows "datetime_add t (split_us x) = shift t (- x)"
proof -
  have x0: "((toordinal t + 0 * 7) * 86400 + second t + minute t * 60 + hour t * 3600) * 1000000
              + microsecond t + 0 * 1000 = instant t"
    by (simp add: instant_def algebra_simps)
  have "\<not> \<bar>instant t div 86400000000\<bar> > 999999999"
    using toordinal_range [OF assms] by (simp add: instant_parts(4) [OF assms] MAXORDINAL_def)
  then have mk: "mk_timedelta (toordinal t) (second t) (microsecond t) 0 (minute t) (hour t) 0
      = Inr (split_us (instant t))"
    unfolding mk_timedelta_eq Let_def x0 by simp
  define z where "z = instant t + x"
  have sel: "days (split_us z) = z div 86400000000"
    "seconds (split_us z) = z div 1000000 mod 86400"
    "microseconds (split_us z) = z mod 1000000"
    by (simp_all add: split_us_def)
  show ?thesis
  proof (cases "1 \<le> z div 86400000000 \<and> z div 86400000000 \<le> MAXORDINAL")
    case True
    then have "\<not> \<bar>z div 86400000000\<bar> > 999999999" by (simp add: MAXORDINAL_def)
    then have add: "timedelta_add (split_us (instant t)) (split_us x) = Inr (split_us z)"
      by (simp add: timedelta_add_split z_def)
    have "datetime_add t (split_us x) = Inr (of_instant z)"
      using True
      by (simp add: datetime_add_def mk bind_def add sel of_instant_def Let_def
            split: prod.splits)
    with True show ?thesis by (auto simp: shift_def z_def Let_def)
  next
    case False
    have "datetime_add t (split_us x) = Inl OverflowError"
    proof (cases "\<bar>z div 86400000000\<bar> > 999999999")
      case True
      then have "timedelta_add (split_us (instant t)) (split_us x) = Inl OverflowError"
        by (simp add: timedelta_add_split z_def)
      then show ?thesis unfolding datetime_add_def mk bind_def by simp
    next
      case nov: False
      then have "timedelta_add (split_us (instant t)) (split_us x) = Inr (split_us z)"
        by (simp add: timedelta_add_split z_def)
      moreover have "\<not> (0 < z div 86400000000 \<and> z div 86400000000 \<le> MAXORDINAL)"
        using False by auto
      ultimately show ?thesis
        by (auto simp add: datetime_add_def mk bind_def sel Let_def)
    qed
    with False show ?thesis by (auto simp: shift_def z_def Let_def)
  qed
qed

lemma datetime_sub_shift:
  assumes "valid_datetime t"
  shows "datetime_sub t (split_us x) = shift t x"
proof (cases "\<bar>(- x) div 86400000000\<bar> > 999999999")
  case False
  then show ?thesis
    by (simp add: datetime_sub_def timedelta_neg_split bind_def datetime_add_shift [OF assms])
next
  case True
  from div_bounds [of 86400000000 "- x"]
  have q: "86400000000 * ((- x) div 86400000000) \<le> - x"
    "- x < 86400000000 * ((- x) div 86400000000) + 86400000000" by simp_all
  define z where "z = instant t - x"
  from div_bounds [of 86400000000 z]
  have zq: "86400000000 * (z div 86400000000) \<le> z"
    "z < 86400000000 * (z div 86400000000) + 86400000000" by simp_all
  from True consider "(- x) div 86400000000 \<ge> 1000000000" | "(- x) div 86400000000 \<le> - 1000000000"
    by linarith
  then have "\<not> (1 \<le> z div 86400000000 \<and> z div 86400000000 \<le> MAXORDINAL)"
  proof cases
    case 1
    with q zq instant_range [OF assms] show ?thesis unfolding z_def MAXORDINAL_def by linarith
  next
    case 2
    with q(2) have "- x < 86400000000 * (- 1000000000) + 86400000000" by linarith
    with instant_range [OF assms] have "z < 0" by (simp add: z_def MAXORDINAL_def)
    with zq(1) have "z div 86400000000 < 0" by linarith
    then show ?thesis by simp
  qed
  with True show ?thesis
    by (simp add: datetime_sub_def timedelta_neg_split bind_def shift_def Let_def
          z_def [symmetric])
qed

lemma shift_result:
  assumes "shift t x = Inr t'"
  shows "valid_datetime t'" and "instant t' = instant t - x"
proof -
  from assms have r: "1 \<le> (instant t - x) div 86400000000"
    "(instant t - x) div 86400000000 \<le> MAXORDINAL" and t': "t' = of_instant (instant t - x)"
    by (auto simp: shift_def Let_def split: if_splits)
  from of_instant_valid [OF r] t' show "valid_datetime t'" "instant t' = instant t - x"
    by simp_all
qed

lemma shift_zero: "valid_datetime t \<Longrightarrow> shift t 0 = Inr t"
  using instant_parts(4) [of t] toordinal_range [of t]
  by (simp add: shift_def of_instant_instant)

lemma shift_shift:
  assumes "valid_datetime t" "0 \<le> x" "0 \<le> y"
  shows "bind (shift t x) (\<lambda>t'. shift t' y) = shift t (x + y)"
proof (cases "shift t x")
  case (Inr t')
  from shift_result [OF Inr] have "instant t' = instant t - x" by simp
  then have "shift t' y = shift t (x + y)"
    by (simp add: shift_def diff_diff_eq)
  with Inr show ?thesis by (simp add: bind_def)
next
  case (Inl e)
  then have e: "e = OverflowError" by (auto simp: shift_def Let_def split: if_splits)
  have up: "(instant t - x) div 86400000000 \<le> MAXORDINAL"
    using zdiv_mono1 [of "instant t - x" "instant t" 86400000000] assms
      instant_parts(4) [OF assms(1)] toordinal_range [OF assms(1)] by simp
  with Inl have lo: "\<not> 1 \<le> (instant t - x) div 86400000000"
    by (auto simp: shift_def Let_def split: if_splits)
  have "(instant t - (x + y)) div 86400000000 \<le> (instant t - x) div 86400000000"
    using assms by (intro zdiv_mono1) simp_all
  with lo have "shift t (x + y) = Inl OverflowError" by (simp add: shift_def Let_def)
  with Inl e show ?thesis by (simp add: bind_def)
qed



lemma mk_timedelta_zero: "mk_timedelta 0 0 0 0 0 0 0 = Inr (split_us 0)"
  by (simp add: mk_timedelta_eq)

lemma monthrange_days_eq:
  assumes "1 \<le> m" "m \<le> 12"
  shows "monthrange_days y m = days_in_month y m"
  using month_cases [OF assms]
  by (elim disjE) (simp_all add: monthrange_days_def days_in_month_def DAYS_IN_MONTH_def)

lemma relativedelta_months_nonneg:
  assumes "0 \<le> v"
  shows "relativedelta_months v = \<lparr>years = v div 12, months = v mod 12\<rparr>"
proof (cases "v > 11")
  case True
  with assms show ?thesis
    by (simp add: relativedelta_months_def relativedelta_fix_def sign_def Let_def)
next
  case False
  with assms have "v div 12 = 0" "v mod 12 = v" by simp_all
  with False assms show ?thesis
    by (simp add: relativedelta_months_def relativedelta_fix_def)
qed

lemma relativedelta_neg_months:
  assumes "0 \<le> v"
  shows "relativedelta_neg (relativedelta_months v) = \<lparr>years = - (v div 12), months = - (v mod 12)\<rparr>"
proof -
  have "0 \<le> v mod 12" "v mod 12 < 12" by simp_all
  then have "\<not> \<bar>- (v mod 12)\<bar> > 11" by linarith
  then show ?thesis
    by (simp add: relativedelta_months_nonneg [OF assms] relativedelta_neg_def
          relativedelta_fix_def)
qed

lemma relativedelta_rsub_months:
  assumes t: "valid_datetime t" and v: "0 \<le> v"
  shows "relativedelta_rsub (relativedelta_months v) t = minus_months t v"
proof -
  define q r where "q = v div 12" and "r = v mod 12"
  have r: "0 \<le> r" "r < 12" by (simp_all add: r_def)
  have vq: "v = 12 * q + r" by (simp add: q_def r_def)
  from t have mo: "1 \<le> month t" "month t \<le> 12" and dy: "1 \<le> day t"
    and yr: "1 \<le> year t" "year t \<le> 9999"
    by (simp_all add: valid_datetime_def MINYEAR_def MAXYEAR_def)
  define k where "k = year t * 12 + (month t - 1) - v"
  define Y where "Y = k div 12"
  define M where "M = k mod 12 + 1"
  have YM: "(if - r \<noteq> 0
             then if month t + - r > 12 then (year t + - q + 1, month t + - r - 12)
                  else if month t + - r < 1 then (year t + - q - 1, month t + - r + 12)
                  else (year t + - q, month t + - r)
             else (year t + - q, month t)) = (Y, M)"
  proof (cases "month t - 1 - r \<ge> 0")
    case True
    have "k = 12 * (year t - q) + (month t - 1 - r)" by (simp add: k_def vq)
    from int_div_pos_eq [OF this] int_mod_pos_eq [OF this] True r mo
    have "Y = year t - q" "M = month t - r" by (simp_all add: Y_def M_def)
    with True r mo show ?thesis by (auto simp: Let_def)
  next
    case False
    have "k = 12 * (year t - q - 1) + (month t - 1 - r + 12)" by (simp add: k_def vq)
    from int_div_pos_eq [OF this] int_mod_pos_eq [OF this] False r mo
    have "Y = year t - q - 1" "M = month t - r + 12" by (simp_all add: Y_def M_def)
    with False r mo show ?thesis by (auto simp: Let_def)
  qed
  have Mb: "1 \<le> M" "M \<le> 12" by (simp_all add: M_def)
  have "k \<le> year t * 12 + 11" using v mo by (simp add: k_def)
  then have "k div 12 \<le> (year t * 12 + 11) div 12" by (rule zdiv_mono1) simp
  then have Yle: "Y \<le> 9999" using yr by (simp add: Y_def)
  define D where "D = min (days_in_month Y M) (day t)"
  have Db: "1 \<le> D" "D \<le> days_in_month Y M"
    using days_in_month_bounds [OF Mb, of Y] dy by (simp_all add: D_def)
  have cMD: "c_int M" "c_int D"
    using Mb Db days_in_month_bounds [OF Mb, of Y] by (simp_all add: c_int_def)
  have radd: "relativedelta_radd \<lparr>years = - q, months = - r\<rparr> t =
      bind (replace_date t Y M D)
        (\<lambda>t'. bind (mk_timedelta 0 0 0 0 0 0 0) (datetime_add t'))"
    by (simp only: relativedelta_radd_def relativedelta.simps Let_def YM prod.case D_def
          monthrange_days_eq [OF Mb])
  show ?thesis
  proof (cases "Y < 1")
    case True
    then have "replace_date t Y M D
        = (if Y < - 2147483648 then Inl OverflowError else Inl ValueError)"
      using cMD Yle by (simp add: replace_date_def MINYEAR_def c_int_def)
    with True show ?thesis
      by (simp add: relativedelta_rsub_def relativedelta_neg_months [OF v] q_def [symmetric]
            r_def [symmetric] radd bind_def minus_months_def Let_def k_def [symmetric]
            Y_def [symmetric])
  next
    case False
    define t' where "t' = t\<lparr>year := Y, month := M, day := D\<rparr>"
    from False Yle Mb Db cMD have rep: "replace_date t Y M D = Inr t'"
      by (simp add: replace_date_def MINYEAR_def MAXYEAR_def t'_def c_int_def)
    have vt': "valid_datetime t'"
      using t False Yle Mb Db by (simp add: valid_datetime_def t'_def MINYEAR_def MAXYEAR_def)
    have "datetime_add t' (split_us 0) = Inr t'"
      using datetime_add_shift [OF vt', of 0] shift_zero [OF vt'] by simp
    with False rep show ?thesis
      by (simp add: relativedelta_rsub_def relativedelta_neg_months [OF v] q_def [symmetric]
            r_def [symmetric] radd bind_def mk_timedelta_zero minus_months_def Let_def
            k_def [symmetric] Y_def [symmetric] M_def [symmetric] D_def [symmetric] t'_def)
  qed
qed



lemma tod_lex:
  fixes h mi s us h' mi' s' us' :: int
  assumes "0 \<le> mi" "mi < 60" "0 \<le> s" "s < 60" "0 \<le> us" "us < 1000000"
    and "0 \<le> mi'" "mi' < 60" "0 \<le> s'" "s' < 60" "0 \<le> us'" "us' < 1000000"
    and "(h * 3600 + mi * 60 + s) * 1000000 + us \<le> (h' * 3600 + mi' * 60 + s') * 1000000 + us'"
  shows "(h, mi, s, us) \<le> (h', mi', s', us')"
proof -
  have n: "h * 3600000000 + mi * 60000000 + s * 1000000 + us
             \<le> h' * 3600000000 + mi' * 60000000 + s' * 1000000 + us'"
    using assms(13) by (simp add: algebra_simps)
  note b = assms(1-12)
  have "h \<le> h'" using b n by linarith
  moreover have "h = h' \<Longrightarrow> mi \<le> mi'" using b n by linarith
  moreover have "h = h' \<Longrightarrow> mi = mi' \<Longrightarrow> s \<le> s'" using b n by linarith
  moreover have "h = h' \<Longrightarrow> mi = mi' \<Longrightarrow> s = s' \<Longrightarrow> us \<le> us'" using b n by linarith
  ultimately show ?thesis by auto
qed

lemma lex_date_time:
  fixes y m d y' m' d' :: int and r r' :: "int \<times> int \<times> int \<times> int"
  shows "(y, m, d) < (y', m', d') \<Longrightarrow> (y, m, d, r) \<le> (y', m', d', r')"
    and "(y, m, d) = (y', m', d') \<Longrightarrow> r \<le> r' \<Longrightarrow> (y, m, d, r) \<le> (y', m', d', r')"
  by auto

lemma datetime_le_instant:
  assumes a: "valid_datetime a" and b: "valid_datetime b" and le: "instant a \<le> instant b"
  shows "datetime_le a b"
proof -
  note da = valid_datetime_date [OF a] and db = valid_datetime_date [OF b]
  let ?ta = "(hour a, minute a, second a, microsecond a)"
  let ?tb = "(hour b, minute b, second b, microsecond b)"
  consider (lt) "(year a, month a, day a) < (year b, month b, day b)"
    | (eq) "(year a, month a, day a) = (year b, month b, day b)"
    | (gt) "(year b, month b, day b) < (year a, month a, day a)"
    using less_linear by blast
  then show ?thesis
  proof cases
    case lt
    from lex_date_time(1) [OF this, of ?ta ?tb] show ?thesis by (simp only: datetime_le_def)
  next
    case eq
    then have "toordinal a = toordinal b" by (simp add: toordinal_def)
    with le have "(hour a * 3600 + minute a * 60 + second a) * 1000000 + microsecond a
        \<le> (hour b * 3600 + minute b * 60 + second b) * 1000000 + microsecond b"
      by (simp add: instant_def algebra_simps)
    then have "?ta \<le> ?tb"
      using a b by (intro tod_lex) (simp_all add: valid_datetime_def)
    from lex_date_time(2) [OF eq this] show ?thesis by (simp only: datetime_le_def)
  next
    case gt
    from ymd2ord_less [OF _ _ gt] da db have "toordinal b < toordinal a"
      by (simp add: toordinal_def)
    moreover have "instant b < 86400000000 * toordinal b + 86400000000"
      using div_bounds [of 86400000000 "instant b"] instant_parts(4) [OF b] by simp
    moreover have "86400000000 * toordinal a \<le> instant a"
      using div_bounds [of 86400000000 "instant a"] instant_parts(4) [OF a] by simp
    ultimately have "instant b < instant a" by linarith
    with le show ?thesis by simp
  qed
qed

lemma shift_le:
  assumes "valid_datetime t" "0 \<le> x" "shift t x = Inr t'"
  shows "valid_datetime t' \<and> datetime_le t' t"
proof -
  from shift_result [OF assms(3)] have v: "valid_datetime t'" and i: "instant t' = instant t - x"
    by simp_all
  from i assms(2) have "instant t' \<le> instant t" by simp
  from datetime_le_instant [OF v assms(1) this] v show ?thesis by simp
qed

lemma minus_months_le:
  assumes t: "valid_datetime t" and v: "0 \<le> v" and r: "minus_months t v = Inr t'"
  shows "valid_datetime t' \<and> datetime_le t' t"
proof -
  define k where "k = year t * 12 + (month t - 1) - v"
  define Y where "Y = k div 12"
  define M where "M = k mod 12 + 1"
  define D where "D = min (days_in_month Y M) (day t)"
  from r have Y1: "1 \<le> Y" and t': "t' = t\<lparr>year := Y, month := M, day := D\<rparr>"
    by (auto simp: minus_months_def Let_def k_def Y_def M_def D_def split: if_splits)
  from t have mo: "1 \<le> month t" "month t \<le> 12" and dy: "1 \<le> day t"
    "day t \<le> days_in_month (year t) (month t)"
    and yr: "1 \<le> year t" "year t \<le> 9999"
    by (simp_all add: valid_datetime_def MINYEAR_def MAXYEAR_def)
  have Mb: "1 \<le> M" "M \<le> 12" by (simp_all add: M_def)
  have kYM: "k = 12 * Y + (M - 1)" by (simp add: Y_def M_def)
  have kle: "k \<le> year t * 12 + (month t - 1)" using v by (simp add: k_def)
  have Db: "1 \<le> D" "D \<le> days_in_month Y M"
    using days_in_month_bounds [OF Mb, of Y] dy by (simp_all add: D_def)
  have Yle: "Y \<le> year t" using kYM kle Mb mo by linarith
  have valid: "valid_datetime t'"
    using t Y1 Yle yr Mb Db by (simp add: valid_datetime_def t' MINYEAR_def MAXYEAR_def)
  have "datetime_le t' t"
  proof (cases "v = 0")
    case True
    then have "k = 12 * year t + (month t - 1)" by (simp add: k_def)
    from int_div_pos_eq [OF this] int_mod_pos_eq [OF this] mo
    have "Y = year t" "M = month t" by (simp_all add: Y_def M_def)
    with dy have "t' = t" by (simp add: t' D_def)
    then show ?thesis by (simp add: datetime_le_def)
  next
    case False
    with v kle have "k < year t * 12 + (month t - 1)" by (simp add: k_def)
    with kYM Mb mo have "Y < year t \<or> (Y = year t \<and> M < month t)" by linarith
    then show ?thesis by (auto simp: datetime_le_def t')
  qed
  with valid show ?thesis by simp
qed



lemma match_alt_units:
  "match_alt as s = Some (u, rest) \<Longrightarrow> u \<in> set as \<and> s = u @ rest"
proof (induction as)
  case Nil
  then show ?case by simp
next
  case (Cons a as)
  show ?case
  proof (cases "take (length a) s = a")
    case True
    with Cons.prems have "a = u" "drop (length a) s = rest" by auto
    moreover have "take (length a) s @ drop (length a) s = s" by (rule append_take_drop_id)
    ultimately show ?thesis using True by auto
  next
    case False
    with Cons show ?thesis by simp
  qed
qed

lemma try_spaces_unit: "try_spaces j s = Some (u, rest) \<Longrightarrow> u \<in> set units"
proof (induction j)
  case 0
  then show ?case using match_alt_units by simp
next
  case (Suc j)
  then show ?case
    by (cases "match_alt units (drop (Suc j) s)") (auto dest: match_alt_units)
qed

lemma take_takeWhile:
  "n \<le> length (takeWhile P s) \<Longrightarrow> take n s = take n (takeWhile P s)"
proof -
  assume "n \<le> length (takeWhile P s)"
  then have "take n (takeWhile P s @ dropWhile P s) = take n (takeWhile P s)"
    by (simp del: takeWhile_dropWhile_id)
  then show ?thesis by simp
qed

lemma try_digits_groups:
  assumes "try_digits k s = Some (v, u, rest)" "k \<le> length (takeWhile is_digit s)"
  shows "digits v \<and> u \<in> set units"
  using assms
proof (induction k)
  case 0
  then show ?case by simp
next
  case (Suc k)
  show ?case
  proof (cases "match_spaces (drop (Suc k) s)")
    case None
    with Suc show ?thesis by simp
  next
    case (Some r)
    obtain u' rest' where r: "r = (u', rest')" by (cases r)
    with Some Suc.prems(1) have eq: "u' = u" "v = take (Suc k) s" by simp_all
    from Some r eq have "u \<in> set units"
      using try_spaces_unit by (simp add: match_spaces_def)
    moreover have "v = take (Suc k) (takeWhile is_digit s)"
      using eq Suc.prems(2) by (simp only: take_takeWhile)
    then have "set v \<subseteq> set (takeWhile is_digit s)" "v \<noteq> []"
      using Suc.prems(2) by (auto dest: in_set_takeD)
    then have "digits v"
      by (auto simp: digits_def list_all_iff dest: set_takeWhileD)
    ultimately show ?thesis by simp
  qed
qed

lemma match_here_groups:
  "match_here s = Some (v, u, rest) \<Longrightarrow> digits v \<and> u \<in> set units"
  using try_digits_groups [of "length (takeWhile is_digit s)" s v u rest]
  by (simp add: match_here_def)

lemma findall_groups:
  "(v, u) \<in> set (findall s) \<Longrightarrow> digits v \<and> u \<in> set units"
proof (induction s rule: findall.induct)
  case 1
  then show ?case by simp
next
  case (2 c cs)
  show ?case
  proof (cases "match_here (c # cs)")
    case None
    with 2 show ?thesis by simp
  next
    case (Some r)
    obtain v' u' rest where r: "r = (v', u', rest)" by (cases r)
    from 2(3) Some r have "(v, u) = (v', u') \<or> (v, u) \<in> set (findall rest)" by simp
    then show ?thesis
    proof
      assume "(v, u) = (v', u')"
      with Some r match_here_groups [of "c # cs" v' u' rest] show ?thesis by simp
    next
      assume "(v, u) \<in> set (findall rest)"
      with 2(2) [of "(v', u', rest)" v' "(u', rest)" u' rest] Some r show ?thesis
        by simp
    qed
  qed
qed

lemma digit_val_range: "is_digit c \<Longrightarrow> 0 \<le> digit_val c \<and> digit_val c \<le> 9"
  by (auto simp: is_digit_def digit_val_def Let_def)

lemma foldl_digits_nonneg:
  "list_all is_digit v \<Longrightarrow> 0 \<le> a \<Longrightarrow> 0 \<le> foldl (\<lambda>acc c. 10 * acc + digit_val c) a v"
proof (induction v arbitrary: a)
  case Nil
  then show ?case by simp
next
  case (Cons c v)
  from Cons.prems have "0 \<le> 10 * a + digit_val c" using digit_val_range [of c] by simp
  with Cons show ?case by simp
qed

lemma py_int_digits:
  "digits v \<Longrightarrow> length v \<le> MAX_STR_DIGITS \<Longrightarrow> \<exists>n. py_int v = Inr n \<and> 0 \<le> n"
  by (simp add: digits_def py_int_def foldl_digits_nonneg)

lemma py_int_long:
  "digits v \<Longrightarrow> MAX_STR_DIGITS < length v \<Longrightarrow> py_int v = Inl ValueError"
  by (simp add: digits_def py_int_def)

lemma py_int_error: "py_int v = Inl e \<Longrightarrow> e = ValueError"
  by (auto simp: py_int_def split: if_splits)

lemma apply_token_int_error: "py_int v = Inl e \<Longrightarrow> apply_token t (v, u) = Inl e"
  by (simp add: apply_token_def bind_def)



lemma sub_timedelta_shift:
  assumes t: "valid_datetime t" and x: "0 \<le> x"
  shows "bind (if \<bar>x div 86400000000\<bar> > 999999999 then Inl OverflowError
               else Inr (split_us x)) (datetime_sub t) = shift t x"
proof (cases "\<bar>x div 86400000000\<bar> > 999999999")
  case False
  then show ?thesis by (simp add: bind_def datetime_sub_shift [OF t])
next
  case True
  have "0 \<le> x div 86400000000" using x by (simp add: pos_imp_zdiv_nonneg_iff)
  with True have "1000000000 \<le> x div 86400000000" by linarith
  with div_bounds [of 86400000000 x] have "86400000000 * 1000000000 \<le> x" by linarith
  with instant_range [OF t] have "instant t - x < 0" by (simp add: MAXORDINAL_def)
  with div_bounds [of 86400000000 "instant t - x"]
  have "(instant t - x) div 86400000000 < 0" by linarith
  with True show ?thesis by (simp add: bind_def shift_def Let_def)
qed

lemma apply_token_eq:
  assumes t: "valid_datetime t" and v: "py_int v = Inr n" and n: "0 \<le> n"
    and u: "u \<in> set units"
  shows "apply_token t (v, u)
           = (if u = ''mo'' then minus_months t n else shift t (n * unit_us u))"
proof -
  from u consider "u = ''mo''" | "u = ''w''" | "u = ''d''" | "u = ''h''" | "u = ''m''"
    by (auto simp: units_def)
  then show ?thesis
  proof cases
    case 1
    then show ?thesis
      by (simp add: apply_token_def v bind_def relativedelta_rsub_months [OF t n])
  next
    case 2
    have "0 \<le> n * 604800000000" using n by simp
    from sub_timedelta_shift [OF t this] 2 show ?thesis
      by (simp add: apply_token_def v bind_def [of "Inr n"] mk_timedelta_eq unit_us_def
            algebra_simps)
  next
    case 3
    have "0 \<le> n * 86400000000" using n by simp
    from sub_timedelta_shift [OF t this] 3 show ?thesis
      by (simp add: apply_token_def v bind_def [of "Inr n"] mk_timedelta_eq unit_us_def
            algebra_simps)
  next
    case 4
    have "0 \<le> n * 3600000000" using n by simp
    from sub_timedelta_shift [OF t this] 4 show ?thesis
      by (simp add: apply_token_def v bind_def [of "Inr n"] mk_timedelta_eq unit_us_def
            algebra_simps)
  next
    case 5
    have "0 \<le> n * 60000000" using n by simp
    from sub_timedelta_shift [OF t this] 5 show ?thesis
      by (simp add: apply_token_def v bind_def [of "Inr n"] mk_timedelta_eq unit_us_def
            algebra_simps)
  qed
qed

lemma apply_token_le:
  assumes t: "valid_datetime t" and g: "digits v" "u \<in> set units"
    and r: "apply_token t (v, u) = Inr t'"
  shows "valid_datetime t' \<and> datetime_le t' t"
proof -
  have "length v \<le> MAX_STR_DIGITS"
  proof (rule ccontr)
    assume "\<not> length v \<le> MAX_STR_DIGITS"
    then have "py_int v = Inl ValueError" using py_int_long [OF g(1)] by simp
    from apply_token_int_error [OF this] r show False by simp
  qed
  from py_int_digits [OF g(1) this] obtain n where n: "py_int v = Inr n" "0 \<le> n" by blast
  note eq = apply_token_eq [OF t n g(2)]
  show ?thesis
  proof (cases "u = ''mo''")
    case True
    with eq r have "minus_months t n = Inr t'" by simp
    from minus_months_le [OF t n(2) this] show ?thesis .
  next
    case False
    with eq r have "shift t (n * unit_us u) = Inr t'" by simp
    moreover have "0 \<le> n * unit_us u" using n(2) by (simp add: unit_us_def)
    ultimately show ?thesis using shift_le [OF t] by blast
  qed
qed

lemma datetime_le_trans: "datetime_le a b \<Longrightarrow> datetime_le b c \<Longrightarrow> datetime_le a c"
  unfolding datetime_le_def by (rule order_trans)

lemma apply_tokens_le:
  assumes "valid_datetime t" "\<forall>(v, u) \<in> set ps. digits v \<and> u \<in> set units"
    "apply_tokens t ps = Inr t'"
  shows "valid_datetime t' \<and> datetime_le t' t"
  using assms
proof (induction ps arbitrary: t)
  case Nil
  then show ?case by (simp add: datetime_le_def)
next
  case (Cons p ps)
  obtain v u where p: "p = (v, u)" by (cases p)
  from Cons.prems(3) obtain t1 where t1: "apply_token t p = Inr t1" "apply_tokens t1 ps = Inr t'"
    by (cases "apply_token t p") (simp_all add: bind_def)
  from Cons.prems(2) p have g: "digits v" "u \<in> set units" by simp_all
  from apply_token_le [OF Cons.prems(1) g] t1(1) p
  have s1: "valid_datetime t1" "datetime_le t1 t" by simp_all
  from Cons.IH [OF s1(1) _ t1(2)] Cons.prems(2)
  have "valid_datetime t'" "datetime_le t' t1" by simp_all
  with s1(2) show ?case using datetime_le_trans by blast
qed

lemma findall_groups_all: "\<forall>(v, u) \<in> set (findall s). digits v \<and> u \<in> set units"
  using findall_groups by blast

lemma match_here_no_digit: "\<not> is_digit c \<Longrightarrow> match_here (c # cs) = None"
  by (simp add: match_here_def)

lemma findall_no_digit: "\<not> is_digit c \<Longrightarrow> findall (c # cs) = findall cs"
  by (simp add: match_here_no_digit)




lemma astimezone_shift:
  assumes t: "valid_datetime t" and z: "- 86400 < z t" "z t < 86400"
  shows "astimezone z t = shift t (- (z t * 1000000))"
proof -
  define x where "x = z t * 1000000"
  from z have "- 86400000000 < x" "x < 86400000000" by (simp_all add: x_def)
  with div_bounds [of 86400000000 x] have "- 1 \<le> x div 86400000000" "x div 86400000000 \<le> 0"
    by linarith+
  then have "\<not> \<bar>x div 86400000000\<bar> > 999999999" by linarith
  then have off: "mk_timedelta 0 (z t) 0 0 0 0 0 = Inr (split_us x)"
    by (simp add: mk_timedelta_eq x_def)
  have utc: "datetime_sub t (split_us 0) = Inr t"
    using datetime_sub_shift [OF t, of 0] shift_zero [OF t] by simp
  from z show ?thesis
    by (simp add: astimezone_def off mk_timedelta_zero utc bind_def datetime_add_shift [OF t]
          x_def)
qed

lemma astimezone_valid:
  assumes "valid_datetime t" "astimezone z t = Inr local"
  shows "valid_datetime local \<and> instant local = instant t + z t * 1000000"
proof -
  from assms(2) have z: "- 86400 < z t" "z t < 86400"
    by (auto simp: astimezone_def split: if_splits)
  from astimezone_shift [of t z, OF assms(1) z] assms(2)
  have "shift t (- (z t * 1000000)) = Inr local" by simp
  from shift_result [OF this] show ?thesis by simp
qed

section \<open>The callbacks of \<^verbatim>\<open>fetch\<close>\<close>


lemma min_id_of_snoc:
  "min_id_of (ids @ [i]) =
     (if min_id_of ids = None \<or> i < the (min_id_of ids) then Some i else min_id_of ids)"
proof (cases "ids = []")
  case True
  then show ?thesis by (simp add: min_id_of_def)
next
  case False
  define M where "M = Min (set ids)"
  from False have "Min (insert i (set ids)) = min i M"
    unfolding M_def by (intro Min_insert) simp_all
  then have new: "min_id_of (ids @ [i]) = Some (min i M)"
    by (simp add: min_id_of_def)
  have old: "min_id_of ids = Some M"
    using False by (simp add: min_id_of_def M_def)
  show ?thesis unfolding new old by (simp add: min_def)
qed

lemma processed_ids_snoc:
  "processed_ids (ds @ [d]) =
     processed_ids ds @ (case d of Processed m \<Rightarrow> [msg_id m] | Failed m \<Rightarrow> [])"
  by (simp add: processed_ids_def)

lemma found_min_id_message_processor:
  "found_min_id (message_processor verbose st m) =
     (if found_min_id st = None \<or> msg_id m < the (found_min_id st)
      then Some (msg_id m) else found_min_id st)"
  by (simp add: message_processor_def Let_def)

lemma found_min_id_error_handler:
  "found_min_id (error_handler st m) = found_min_id st"
  by (simp add: error_handler_def)

lemma found_min_id_foldl:
  "found_min_id (foldl (callback verbose) \<lparr>found_min_id = None, stdout = []\<rparr> ds)
     = min_id_of (processed_ids ds)"
proof (induction ds rule: rev_induct)
  case Nil
  show ?case by (simp add: processed_ids_def min_id_of_def)
next
  case (snoc d ds)
  show ?case
  proof (cases d)
    case (Processed m)
    then show ?thesis
      using snoc by (simp add: found_min_id_message_processor processed_ids_snoc min_id_of_snoc)
  next
    case (Failed m)
    then show ?thesis
      using snoc by (simp add: found_min_id_error_handler processed_ids_snoc)
  qed
qed

section \<open>Concrete inputs\<close>


lemmas pattern_eval = lower_def lower_char_def match_here_def is_digit_def is_space_def
  match_spaces_def units_def Let_def

lemma findall_1w: "findall (lower ''1w'') = [(''1'', ''w'')]"
  by (simp add: pattern_eval)
lemma findall_1w_2d: "findall (lower ''1w 2d'') = [(''1'', ''w''), (''2'', ''d'')]"
  by (simp add: pattern_eval)
lemma findall_0d: "findall (lower ''0d'') = [(''0'', ''d'')]"
  by (simp add: pattern_eval)
lemma findall_1mo: "findall (lower ''1mo'') = [(''1'', ''mo'')]"
  by (simp add: pattern_eval)
lemma findall_1m: "findall (lower ''1m'') = [(''1'', ''m'')]"
  by (simp add: pattern_eval)
lemma findall_bogus: "findall (lower ''bogus'') = []"
  by (simp add: pattern_eval)
lemma findall_big: "findall (lower ''2500000000w'') = [(''2500000000'', ''w'')]"
  by (simp add: pattern_eval)

lemma py_int_small:
  "py_int ''0'' = Inr 0" "py_int ''1'' = Inr 1" "py_int ''2'' = Inr 2"
  "py_int ''2500000000'' = Inr 2500000000"
  "py_int ''738975'' = Inr 738975" "py_int ''12'' = Inr 12"
  by (simp_all add: py_int_def is_digit_def digit_val_def MAX_STR_DIGITS_def)

lemma valid_clock: "valid_datetime clock"
  by (simp add: valid_datetime_def clock_def MINYEAR_def MAXYEAR_def days_in_month_def
        DAYS_IN_MONTH_def)

lemma instant_clock: "instant clock = 63847571415000250"
  by (simp add: instant_def clock_def toordinal_def ymd2ord_def days_before_year_def
      days_before_month_def DAYS_BEFORE_MONTH_def is_leap_def)




lemma bind_Inr_right: "bind r Inr = r"
  by (cases r) (simp_all add: bind_def)

lemma parse_one:
  "findall (lower s) = [p] \<Longrightarrow> parse_relative_time_string t s = apply_token t p"
  by (simp add: parse_relative_time_string_def bind_Inr_right)

lemma parse_two:
  "findall (lower s) = [p, q] \<Longrightarrow>
     parse_relative_time_string t s = bind (apply_token t p) (\<lambda>t'. apply_token t' q)"
  by (simp add: parse_relative_time_string_def bind_Inr_right)

lemma parse_none:
  "findall (lower s) = [] \<Longrightarrow> parse_relative_time_string t s = Inr t"
  by (simp add: parse_relative_time_string_def)

lemma minus_days_shift:
  assumes "valid_datetime t" "0 \<le> n"
  shows "minus_days t n = shift t (n * 86400000000)"
proof -
  have "0 \<le> n * 86400000000" using assms(2) by simp
  from sub_timedelta_shift [OF assms(1) this] show ?thesis
    by (simp add: minus_days_def mk_timedelta_eq algebra_simps)
qed

lemma units_mem:
  "''mo'' \<in> set units" "''w'' \<in> set units" "''d'' \<in> set units" "''h'' \<in> set units"
  "''m'' \<in> set units"
  by (simp_all add: units_def)

lemma token_fixed:
  assumes "valid_datetime t" "py_int v = Inr n" "0 \<le> n" "u \<in> set units" "u \<noteq> ''mo''"
  shows "apply_token t (v, u) = shift t (n * unit_us u)"
  using apply_token_eq [OF assms(1-4)] assms(5) by simp

lemma shift_then_token:
  assumes t: "valid_datetime t" and x: "0 \<le> x"
    and v: "py_int v = Inr n" "0 \<le> n" and u: "u \<in> set units" "u \<noteq> ''mo''"
  shows "bind (shift t x) (\<lambda>t'. apply_token t' (v, u)) = shift t (x + n * unit_us u)"
proof -
  have y: "0 \<le> n * unit_us u" using v(2) by (simp add: unit_us_def)
  have "bind (shift t x) (\<lambda>t'. apply_token t' (v, u))
          = bind (shift t x) (\<lambda>t'. shift t' (n * unit_us u))"
  proof (cases "shift t x")
    case (Inl e)
    then show ?thesis by (simp add: bind_def)
  next
    case (Inr t1)
    from shift_result(1) [OF Inr] have "valid_datetime t1" .
    from token_fixed [OF this v u] Inr show ?thesis by (simp add: bind_def)
  qed
  with shift_shift [OF t x y] show ?thesis by simp
qed

lemma ord2ymd_738969: "ord2ymd 738969 = (2024, 3, 24)"
  by (simp add: ord2ymd_def DI400Y_def DI100Y_def DI4Y_def Let_def month_day_def
      DAYS_BEFORE_MONTH_def DAYS_IN_MONTH_def)

lemma ord2ymd_738967: "ord2ymd 738967 = (2024, 3, 22)"
  by (simp add: ord2ymd_def DI400Y_def DI100Y_def DI4Y_def Let_def month_day_def
      DAYS_BEFORE_MONTH_def DAYS_IN_MONTH_def)

lemma shift_clock_days:
  "shift clock 604800000000 = Inr (clock\<lparr>day := 24\<rparr>)"
  "shift clock 777600000000 = Inr (clock\<lparr>day := 22\<rparr>)"
  by (simp_all add: shift_def instant_clock of_instant_def MAXORDINAL_def ord2ymd_738969
        ord2ymd_738967 Let_def)
     (simp_all add: clock_def)


lemma lower_append: "lower (a @ b) = lower a @ lower b"
  by (simp add: lower_def)


lemma parse_clock_1w: "parse_relative_time_string clock ''1w'' = Inr (clock\<lparr>day := 24\<rparr>)"
proof -
  have "apply_token clock (''1'', ''w'') = shift clock 604800000000"
    using token_fixed [OF valid_clock py_int_small(2) _ units_mem(2)] by (simp add: unit_us_def)
  then show ?thesis by (simp add: parse_one [OF findall_1w] shift_clock_days)
qed

lemma parse_clock_1w_2d:
  "parse_relative_time_string clock ''1w 2d'' = Inr (clock\<lparr>day := 22\<rparr>)"
proof -
  have w: "apply_token clock (''1'', ''w'') = shift clock 604800000000"
    using token_fixed [OF valid_clock py_int_small(2) _ units_mem(2)] by (simp add: unit_us_def)
  have "bind (shift clock 604800000000) (\<lambda>t'. apply_token t' (''2'', ''d''))
          = shift clock (604800000000 + 2 * unit_us ''d'')"
    by (rule shift_then_token [OF valid_clock _ py_int_small(3) _ units_mem(3)]) simp_all
  then show ?thesis
    using shift_clock_days(2) by (simp add: parse_two [OF findall_1w_2d] w unit_us_def)
qed


lemma unit_cases:
  assumes "u \<in> set units"
  obtains "u = ''mo''" | "u = ''w''" | "u = ''d''" | "u = ''h''" | "u = ''m''"
  using assms by (auto simp: units_def)

lemma match_alt_unit_space:
  assumes "u \<in> set units"
  shows "match_alt units (u @ CHR '' '' # rest) = Some (u, CHR '' '' # rest)"
  using assms by (rule unit_cases) (simp_all add: units_def)

lemma unit_head:
  assumes "u \<in> set units"
  shows "takeWhile is_digit (u @ s) = [] \<and> takeWhile is_space (u @ s) = []"
  using assms by (rule unit_cases) (simp_all add: is_digit_def is_space_def)

lemma match_here_token:
  assumes v: "digits v" and u: "u \<in> set units"
  shows "match_here (v @ u @ CHR '' '' # rest) = Some (v, u, CHR '' '' # rest)"
proof -
  let ?s = "v @ u @ CHR '' '' # rest"
  from v have all: "\<And>c. c \<in> set v \<Longrightarrow> is_digit c" and ne: "v \<noteq> []"
    by (simp_all add: digits_def list_all_iff)
  have "takeWhile is_digit ?s = v @ takeWhile is_digit (u @ CHR '' '' # rest)"
    using all by (simp add: takeWhile_append2)
  with unit_head [OF u] have tw: "takeWhile is_digit ?s = v" by simp
  from ne obtain k where k: "length v = Suc k" by (cases v) simp_all
  have sp: "match_spaces (u @ CHR '' '' # rest) = Some (u, CHR '' '' # rest)"
    using unit_head [OF u, of "CHR '' '' # rest"] match_alt_unit_space [OF u]
    by (simp add: match_spaces_def)
  have dt: "drop (Suc k) ?s = u @ CHR '' '' # rest" "take (Suc k) ?s = v"
    using k by simp_all
  have "try_digits (Suc k) ?s = Some (v, u, CHR '' '' # rest)"
    by (simp only: try_digits.simps dt sp option.case prod.case)
  then show ?thesis by (simp add: match_here_def tw k)
qed

lemma findall_token:
  assumes v: "digits v" and u: "u \<in> set units"
  shows "findall (v @ u @ CHR '' '' # rest) = (v, u) # findall rest"
proof -
  from v obtain c cs where c: "v = c # cs" by (cases v) (simp_all add: digits_def)
  have "findall (c # (cs @ u @ CHR '' '' # rest))
          = (v, u) # findall (CHR '' '' # rest)"
    using match_here_token [OF v u, of rest] by (simp add: c)
  moreover have "findall (CHR '' '' # rest) = findall rest"
    by (rule findall_no_digit) (simp add: is_digit_def)
  ultimately show ?thesis by (simp add: c)
qed

lemma lower_digits: "digits v \<Longrightarrow> lower v = v"
proof -
  assume "digits v"
  then have "\<And>c. c \<in> set v \<Longrightarrow> lower_char c = c"
    by (auto simp: digits_def list_all_iff is_digit_def lower_char_def Let_def)
  then show ?thesis by (simp add: lower_def map_idI)
qed




lemmas calendar_eval = ord2ymd_def DI400Y_def DI100Y_def DI4Y_def Let_def month_day_def
  DAYS_BEFORE_MONTH_def DAYS_IN_MONTH_def

lemma ord2ymd_clock: "ord2ymd 738976 = (2024, 3, 31)" "ord2ymd 738944 = (2024, 2, 28)"
  by (simp_all add: calendar_eval)


lemma minus_months_clock:
  "minus_months clock 1 = Inr (clock\<lparr>month := 2, day := 29\<rparr>)"
  "minus_months (clock\<lparr>day := 30\<rparr>) 1 = Inr (clock\<lparr>month := 2, day := 29\<rparr>)"
  "minus_months (clock\<lparr>year := 2023\<rparr>) 1 = Inr (clock\<lparr>year := 2023, month := 2, day := 28\<rparr>)"
  by (simp_all add: minus_months_def clock_def days_in_month_def DAYS_IN_MONTH_def is_leap_def)

lemma shift_clock_more:
  "shift clock 60000000 = Inr (clock\<lparr>minute := 29\<rparr>)"
  "shift (clock\<lparr>month := 2, day := 29\<rparr>) 86400000000 = Inr (clock\<lparr>month := 2, day := 28\<rparr>)"
  "shift clock 172800000000 = Inr (clock\<lparr>day := 29\<rparr>)"
proof -
  show "shift clock 60000000 = Inr (clock\<lparr>minute := 29\<rparr>)"
    by (simp add: shift_def instant_clock of_instant_def MAXORDINAL_def ord2ymd_clock Let_def)
       (simp add: clock_def)
  have "instant (clock\<lparr>month := 2, day := 29\<rparr>) = 63844893015000250"
    by (simp add: instant_def clock_def toordinal_def ymd2ord_def days_before_year_def
        days_before_month_def DAYS_BEFORE_MONTH_def is_leap_def)
  then show "shift (clock\<lparr>month := 2, day := 29\<rparr>) 86400000000
      = Inr (clock\<lparr>month := 2, day := 28\<rparr>)"
    by (simp add: shift_def of_instant_def MAXORDINAL_def ord2ymd_clock Let_def)
       (simp add: clock_def)
  have "ord2ymd 738974 = (2024, 3, 29)" by (simp add: calendar_eval)
  then show "shift clock 172800000000 = Inr (clock\<lparr>day := 29\<rparr>)"
    by (simp add: shift_def instant_clock of_instant_def MAXORDINAL_def Let_def)
       (simp add: clock_def)
qed

lemma token_month:
  assumes "valid_datetime t" "py_int v = Inr n" "0 \<le> n"
  shows "apply_token t (v, ''mo'') = minus_months t n"
  using apply_token_eq [OF assms units_mem(1)] by simp





lemma parse_1mo:
  assumes "valid_datetime t"
  shows "parse_relative_time_string t ''1mo'' = minus_months t 1"
  using token_month [OF assms py_int_small(2)] by (simp add: parse_one [OF findall_1mo])

lemma parse_1m:
  assumes "valid_datetime t"
  shows "parse_relative_time_string t ''1m'' = shift t 60000000"
  using token_fixed [OF assms py_int_small(2) _ units_mem(5)]
  by (simp add: parse_one [OF findall_1m] unit_us_def)

lemma minus_months_tod:
  assumes "minus_months t v = Inr t'"
  shows "instant t' - instant t = (toordinal t' - toordinal t) * 86400000000"
proof -
  from assms have "hour t' = hour t \<and> minute t' = minute t \<and> second t' = second t
      \<and> microsecond t' = microsecond t"
    by (auto simp: minus_months_def Let_def split: if_splits)
  then show ?thesis by (simp add: instant_def algebra_simps)
qed

lemma month_is_not_minute:
  assumes "valid_datetime t"
  shows "minus_months t 1 \<noteq> shift t 60000000"
proof
  assume eq: "minus_months t 1 = shift t 60000000"
  show False
  proof (cases "shift t 60000000")
    case (Inl e)
    then have e: "e = OverflowError" by (auto simp: shift_def Let_def split: if_splits)
    from assms have "1 \<le> year t" "1 \<le> month t"
      by (simp_all add: valid_datetime_def MINYEAR_def)
    then have "0 \<le> (year t * 12 + (month t - 1) - 1) div 12"
      by (simp add: pos_imp_zdiv_nonneg_iff)
    with Inl eq e show False by (auto simp: minus_months_def Let_def split: if_splits)
  next
    case (Inr t')
    from shift_result(2) [OF Inr] have "instant t' - instant t = - 60000000" by simp
    moreover from eq Inr have "minus_months t 1 = Inr t'" by simp
    from minus_months_tod [OF this]
    have "instant t' - instant t = (toordinal t' - toordinal t) * 86400000000" .
    ultimately have k: "(toordinal t' - toordinal t) * 86400000000 = - 60000000" by simp
    show False
    proof (cases "toordinal t' - toordinal t \<le> - 1")
      case True
      then have "(toordinal t' - toordinal t) * 86400000000 \<le> - 1 * 86400000000"
        by (intro mult_right_mono) simp_all
      with k show False by simp
    next
      case False
      then have "0 \<le> (toordinal t' - toordinal t) * 86400000000" by simp
      with k show False by simp
    qed
  qed
qed


lemma resolve_since_no_token:
  "findall (lower s) = [] \<Longrightarrow> resolve_since t (Some s) = Inr (if s = [] then None else Some t)"
  by (simp add: resolve_since_def parse_none)

lemma fetch_resolved:
  assumes "resolve_since t since = Inr d"
  shows "\<not> isl (fetch z t tg channel min_id limit since verbose)"
  using assms by (simp add: fetch_def Let_def split: sum.split)

lemma fetch_bad_parameter:
  assumes "s \<noteq> []" "parse_relative_time_string t s = Inl e"
  shows "fetch z t tg channel min_id limit (Some s) verbose = Inl (BadParameter s e)"
  using assms by (simp add: fetch_def resolve_since_def)

lemma parse_clock_bogus: "parse_relative_time_string clock ''bogus'' = Inr clock"
  by (rule parse_none [OF findall_bogus])

lemma parse_clock_big: "parse_relative_time_string clock ''2500000000w'' = Inl OverflowError"
proof -
  have "apply_token clock (''2500000000'', ''w'') = shift clock (2500000000 * unit_us ''w'')"
    by (rule token_fixed [OF valid_clock py_int_small(4) _ units_mem(2)]) simp_all
  also have "\<dots> = Inl OverflowError"
    by (simp add: shift_def instant_clock unit_us_def Let_def)
  finally show ?thesis by (simp add: parse_one [OF findall_big])
qed

lemma session_plain:
  "foldl (callback False) \<lparr>found_min_id = None, stdout = []\<rparr> session
     = \<lparr>found_min_id = Some 48,
        stdout = [MessageLine ''hi'', MessageLine ''hi'', MessageLine ''hi'']\<rparr>"
  by (simp add: session_def msg_def message_processor_def Let_def)

lemma fetch_clock_bogus:
  "fetch eastern clock deliver_session ''chat'' None None (Some ''bogus'') False
     = Inr \<lparr>found_min_id = Some 48,
            stdout = [MessageLine ''hi'', MessageLine ''hi'', MessageLine ''hi''],
            uncaught = None\<rparr>"
  using resolve_since_no_token [OF findall_bogus, of clock]
  by (simp add: fetch_def deliver_session_def session_plain truthy_def)


lemma apply_tokens_error:
  "apply_tokens t ps = Inl e \<Longrightarrow> \<exists>t' p. p \<in> set ps \<and> apply_token t' p = Inl e"
proof (induction ps arbitrary: t)
  case Nil
  then show ?case by simp
next
  case (Cons p ps)
  show ?case
  proof (cases "apply_token t p")
    case (Inl e')
    with Cons.prems have "e' = e" by (simp add: bind_def)
    with Inl have "p \<in> set (p # ps) \<and> apply_token t p = Inl e" by simp
    then show ?thesis by blast
  next
    case (Inr t1)
    with Cons.prems have "apply_tokens t1 ps = Inl e" by (simp add: bind_def)
    from Cons.IH [OF this] obtain t' q where "q \<in> set ps" "apply_token t' q = Inl e"
      by blast
    then have "q \<in> set (p # ps) \<and> apply_token t' q = Inl e" by simp
    then show ?thesis by blast
  qed
qed

lemma fetch_clock_big:
  "fetch eastern clock deliver_session ''chat'' None None (Some ''2500000000w'') False
     = Inl (BadParameter ''2500000000w'' OverflowError)"
  by (rule fetch_bad_parameter [OF _ parse_clock_big]) simp

lemma summary_callback:
  "filter is_summary (stdout (callback verbose st d)) = filter is_summary (stdout st)"
  by (cases d) (simp_all add: message_processor_def error_handler_def Let_def is_summary_def)

lemma summary_foldl:
  "filter is_summary (stdout (foldl (callback verbose) st ds)) = filter is_summary (stdout st)"
  by (induction ds arbitrary: st) (simp_all add: summary_callback)

lemma fetch_clock_empty_since:
  "fetch eastern clock silent ''chat'' None None (Some '''') True
     = Inr \<lparr>found_min_id = None, stdout = [], uncaught = None\<rparr>"
  by (simp add: fetch_def resolve_since_def silent_def truthy_def)

lemma session_verbose:
  "foldl (callback True) \<lparr>found_min_id = None, stdout = []\<rparr> session
     = \<lparr>found_min_id = Some 48,
        stdout = [VerboseLine 50 (date (msg 50)) ''Unknown'' ''hi'',
                  VerboseLine 48 (date (msg 48)) ''Unknown'' ''hi'',
                  VerboseLine 52 (date (msg 52)) ''Unknown'' ''hi'']\<rparr>"
  by (simp add: session_def msg_def message_processor_def Let_def)

lemma astimezone_eastern:
  "valid_datetime t \<Longrightarrow> astimezone eastern t = shift t 18000000000"
  using astimezone_shift [of t eastern] by (simp add: eastern_def)

lemma valid_week_before: "valid_datetime (clock\<lparr>day := 24\<rparr>)"
  by (simp add: valid_datetime_def clock_def MINYEAR_def MAXYEAR_def days_in_month_def
        DAYS_IN_MONTH_def)

lemma instant_week_before: "instant (clock\<lparr>day := 24\<rparr>) = 63846966615000250"
  by (simp add: instant_def clock_def toordinal_def ymd2ord_def days_before_year_def
      days_before_month_def DAYS_BEFORE_MONTH_def is_leap_def)

lemma localize_week_before:
  "astimezone eastern (clock\<lparr>day := 24\<rparr>) = Inr (clock\<lparr>day := 24, hour := 7\<rparr>)"
  by (simp add: astimezone_eastern [OF valid_week_before] shift_def instant_week_before
        of_instant_def MAXORDINAL_def ord2ymd_738969 Let_def)
     (simp add: clock_def)

lemma fetch_clock_1w_verbose:
  "fetch eastern clock deliver_session ''chat'' None None (Some ''1w'') True
     = Inr \<lparr>found_min_id = Some 48,
            stdout = [VerboseLine 50 (date (msg 50)) ''Unknown'' ''hi'',
                      VerboseLine 48 (date (msg 48)) ''Unknown'' ''hi'',
                      VerboseLine 52 (date (msg 52)) ''Unknown'' ''hi'',
                      SummaryLine (clock\<lparr>day := 24, hour := 7\<rparr>) (Some 48)],
            uncaught = None\<rparr>"
  by (simp add: fetch_def resolve_since_def parse_clock_1w deliver_session_def session_verbose
        truthy_def localize_week_before)

lemma fetch_clock_1w_plain:
  "fetch eastern clock deliver_session ''chat'' None None (Some ''1w'') False
     = Inr \<lparr>found_min_id = Some 48,
            stdout = [MessageLine ''hi'', MessageLine ''hi'', MessageLine ''hi''],
            uncaught = None\<rparr>"
  by (simp add: fetch_def resolve_since_def parse_clock_1w deliver_session_def session_plain
        truthy_def)

text \<open>
  The first half hour of the calendar, reached by \<^verbatim>\<open>--since "738975d 12h"\<close> from the
  clock reading used here.  It is a date of the calendar in UTC and not in a zone west
  of UTC: with \<^verbatim>\<open>--verbose\<close> the messages are fetched and printed, then the summary
  statement raises \<^verbatim>\<open>OverflowError\<close> outside every handler and no summary is printed.
\<close>

lemma findall_first_day:
  "findall (lower ''738975d 12h'') = [(''738975'', ''d''), (''12'', ''h'')]"
  by (simp add: pattern_eval)

lemma ord2ymd_first: "ord2ymd 1 = (1, 1, 1)"
  by (simp add: calendar_eval)

lemma parse_clock_first_day:
  "parse_relative_time_string clock ''738975d 12h'' = Inr first_half_hour"
proof -
  have d: "apply_token clock (''738975'', ''d'') = shift clock 63847440000000000"
    using token_fixed [OF valid_clock py_int_small(5) _ units_mem(3)] by (simp add: unit_us_def)
  have "bind (shift clock 63847440000000000) (\<lambda>t'. apply_token t' (''12'', ''h''))
          = shift clock (63847440000000000 + 12 * unit_us ''h'')"
    by (rule shift_then_token [OF valid_clock _ py_int_small(6) _ units_mem(4)]) simp_all
  also have "\<dots> = Inr first_half_hour"
    by (simp add: shift_def instant_clock unit_us_def of_instant_def MAXORDINAL_def
          ord2ymd_first Let_def first_half_hour_def)
  finally show ?thesis by (simp add: parse_two [OF findall_first_day] d)
qed

lemma valid_first_half_hour: "valid_datetime first_half_hour"
  by (simp add: valid_datetime_def first_half_hour_def MINYEAR_def MAXYEAR_def
        days_in_month_def DAYS_IN_MONTH_def)

lemma instant_first_half_hour: "instant first_half_hour = 88215000250"
  by (simp add: instant_def first_half_hour_def toordinal_def ymd2ord_def days_before_year_def
      days_before_month_def DAYS_BEFORE_MONTH_def is_leap_def)

lemma localize_first_half_hour: "astimezone eastern first_half_hour = Inl OverflowError"
  unfolding astimezone_eastern [OF valid_first_half_hour]
  by (simp add: shift_def instant_first_half_hour)

lemma fetch_summary_overflow:
  "fetch eastern clock deliver_session ''chat'' None None (Some ''738975d 12h'') True
     = Inr \<lparr>found_min_id = Some 48,
            stdout = [VerboseLine 50 (date (msg 50)) ''Unknown'' ''hi'',
                      VerboseLine 48 (date (msg 48)) ''Unknown'' ''hi'',
                      VerboseLine 52 (date (msg 52)) ''Unknown'' ''hi''],
            uncaught = Some OverflowError\<rparr>"
  by (simp add: fetch_def resolve_since_def parse_clock_first_day deliver_session_def
        session_verbose truthy_def localize_first_half_hour)

text \<open>
  A magnitude of 4301 digits is matched by the pattern and refused by \<^verbatim>\<open>int\<close>.
\<close>

lemma digits_long_magnitude: "digits long_magnitude" "length long_magnitude = 4301"
  by (simp_all add: digits_def long_magnitude_def list_all_iff is_digit_def)

lemma py_int_long_magnitude: "py_int long_magnitude = Inl ValueError"
  by (rule py_int_long) (simp_all add: digits_long_magnitude MAX_STR_DIGITS_def)

lemma findall_long_magnitude:
  "findall (lower (long_magnitude @ ''d '')) = [(long_magnitude, ''d'')]"
proof -
  have "lower (long_magnitude @ ''d '') = long_magnitude @ ''d'' @ CHR '' '' # []"
    by (simp add: lower_append lower_digits [OF digits_long_magnitude(1)])
       (simp add: lower_def lower_char_def)
  then show ?thesis
    using findall_token [OF digits_long_magnitude(1) units_mem(3), of "[]"] by simp
qed

lemma parse_long_magnitude:
  "parse_relative_time_string t (long_magnitude @ ''d '') = Inl ValueError"
  by (simp add: parse_one [OF findall_long_magnitude]
        apply_token_int_error [OF py_int_long_magnitude])

lemma fetch_long_magnitude:
  "fetch z t tg channel min_id limit (Some (long_magnitude @ ''d '')) verbose
     = Inl (BadParameter (long_magnitude @ ''d '') ValueError)"
  by (rule fetch_bad_parameter [OF _ parse_long_magnitude]) simp




section \<open>The claims of the specification\<close>

text \<open>
  Claim C1.  For a fixed current instant \<open>T\<close> the parser is a function of its input, and
  it agrees with the reference arithmetic of \<^verbatim>\<open>datetime\<close>: \<^verbatim>\<open>"1w"\<close> yields \<open>T\<close> minus 7 days,
  \<^verbatim>\<open>"1w 2d"\<close> yields \<open>T\<close> minus 9 days (both tokens are applied, one after the other), and
  \<^verbatim>\<open>"0d"\<close> yields \<open>T\<close> itself.  The equations hold together with the failures: where
  \<open>T\<close> minus 9 days lies before the first day of the calendar, both sides raise
  \<^verbatim>\<open>OverflowError\<close>.  A result of \<^verbatim>\<open>"1w"\<close> lies 7 times 86400 seconds before \<open>T\<close>, a
  result of \<^verbatim>\<open>"1w 2d"\<close> 9 times 86400 seconds.
\<close>
theorem parse_reference_arithmetic:
  assumes "valid_datetime T"
  shows "parse_relative_time_string T ''1w'' = minus_days T 7
       \<and> parse_relative_time_string T ''1w 2d'' = minus_days T 9
       \<and> parse_relative_time_string T ''0d'' = Inr T
       \<and> (parse_relative_time_string T ''1w'' = Inr A \<longrightarrow>
            instant A = instant T - 7 * 86400000000)
       \<and> (parse_relative_time_string T ''1w 2d'' = Inr B \<longrightarrow>
            instant B = instant T - 9 * 86400000000)"
proof -
  note T = assms
  have w: "apply_token T (''1'', ''w'') = shift T 604800000000"
    using token_fixed [OF T py_int_small(2) _ units_mem(2)] by (simp add: unit_us_def)
  have one: "parse_relative_time_string T ''1w'' = shift T 604800000000"
    by (simp add: parse_one [OF findall_1w] w)
  have "bind (shift T 604800000000) (\<lambda>t'. apply_token t' (''2'', ''d''))
          = shift T (604800000000 + 2 * unit_us ''d'')"
    by (rule shift_then_token [OF T _ py_int_small(3) _ units_mem(3)]) simp_all
  then have two: "parse_relative_time_string T ''1w 2d'' = shift T 777600000000"
    by (simp add: parse_two [OF findall_1w_2d] w unit_us_def)
  have "apply_token T (''0'', ''d'') = shift T 0"
    using token_fixed [OF T py_int_small(1) _ units_mem(3)] by simp
  then have zero: "parse_relative_time_string T ''0d'' = Inr T"
    by (simp add: parse_one [OF findall_0d] shift_zero [OF T])
  have a: "parse_relative_time_string T ''1w'' = Inr A \<Longrightarrow>
      instant A = instant T - 7 * 86400000000"
    using shift_result(2) [of T 604800000000 A] by (simp add: one)
  have b: "parse_relative_time_string T ''1w 2d'' = Inr B \<Longrightarrow>
      instant B = instant T - 9 * 86400000000"
    using shift_result(2) [of T 777600000000 B] by (simp add: two)
  from one two zero a b show ?thesis
    by (simp add: minus_days_shift [OF T])
qed

theorem parse_reference_arithmetic_witness:
  "valid_datetime clock
   \<and> parse_relative_time_string clock ''1w'' = Inr (clock\<lparr>day := 24\<rparr>)
   \<and> parse_relative_time_string clock ''1w 2d'' = Inr (clock\<lparr>day := 22\<rparr>)
   \<and> parse_relative_time_string clock ''0d'' = Inr clock
   \<and> instant (clock\<lparr>day := 24\<rparr>) = instant clock - 7 * 86400000000
   \<and> instant (clock\<lparr>day := 22\<rparr>) = instant clock - 9 * 86400000000"
proof -
  note th = parse_reference_arithmetic [OF valid_clock, of "clock\<lparr>day := 24\<rparr>"
      "clock\<lparr>day := 22\<rparr>"]
  from th have "parse_relative_time_string clock ''1w'' = minus_days clock 7"
    "parse_relative_time_string clock ''1w 2d'' = minus_days clock 9"
    by blast+
  then have a: "parse_relative_time_string clock ''1w'' = Inr (clock\<lparr>day := 24\<rparr>)"
    "parse_relative_time_string clock ''1w 2d'' = Inr (clock\<lparr>day := 22\<rparr>)"
    by (simp_all add: minus_days_shift [OF valid_clock] shift_clock_days)
  from th have b: "parse_relative_time_string clock ''0d'' = Inr clock" by blast
  from th a have c: "instant (clock\<lparr>day := 24\<rparr>) = instant clock - 7 * 86400000000"
    "instant (clock\<lparr>day := 22\<rparr>) = instant clock - 9 * 86400000000"
    by blast+
  from valid_clock a b c show ?thesis by blast
qed

text \<open>
  Claim C2.  For every fixed current instant \<open>T\<close>, \<^verbatim>\<open>"1mo"\<close> is one token with the unit
  \<^verbatim>\<open>mo\<close>: the alternation tries \<^verbatim>\<open>mo\<close> before \<^verbatim>\<open>m\<close>, and the \<^verbatim>\<open>m\<close> of \<^verbatim>\<open>mo\<close> is not
  matched as minutes.  So \<^verbatim>\<open>"1mo"\<close> subtracts one calendar month, \<^verbatim>\<open>"1m"\<close> subtracts one
  minute, and the two results differ.
\<close>
theorem month_token_before_minute_token:
  assumes "valid_datetime T"
  shows "findall (lower ''1mo'') = [(''1'', ''mo'')]
       \<and> findall (lower ''1m'') = [(''1'', ''m'')]
       \<and> parse_relative_time_string T ''1mo'' = minus_months T 1
       \<and> parse_relative_time_string T ''1m'' = shift T 60000000
       \<and> parse_relative_time_string T ''1mo'' \<noteq> parse_relative_time_string T ''1m''"
  using findall_1mo findall_1m parse_1mo [OF assms] parse_1m [OF assms]
    month_is_not_minute [OF assms]
  by simp

theorem month_token_before_minute_token_witness:
  "valid_datetime clock
   \<and> parse_relative_time_string clock ''1mo'' = Inr (clock\<lparr>month := 2, day := 29\<rparr>)
   \<and> parse_relative_time_string clock ''1m'' = Inr (clock\<lparr>minute := 29\<rparr>)
   \<and> parse_relative_time_string clock ''1mo'' \<noteq> parse_relative_time_string clock ''1m''"
proof -
  note th = month_token_before_minute_token [OF valid_clock]
  from th have "parse_relative_time_string clock ''1mo'' = minus_months clock 1"
    "parse_relative_time_string clock ''1m'' = shift clock 60000000"
    by blast+
  then have a: "parse_relative_time_string clock ''1mo'' = Inr (clock\<lparr>month := 2, day := 29\<rparr>)"
    "parse_relative_time_string clock ''1m'' = Inr (clock\<lparr>minute := 29\<rparr>)"
    by (simp_all add: minus_months_clock(1) shift_clock_more(1))
  from th have "parse_relative_time_string clock ''1mo'' \<noteq> parse_relative_time_string clock ''1m''"
    by blast
  with valid_clock a show ?thesis by blast
qed

text \<open>
  Claim C3.  Subtracting one month is calendar-aware and clamps at the end of the month:
  \<^verbatim>\<open>"1mo"\<close> lands in the month before that of \<open>T\<close>, on the day of the month of \<open>T\<close> when
  that month has it and on its last day otherwise, and keeps the time of day (when \<open>T\<close>
  is in January of year 1 there is no such month and \<^verbatim>\<open>ValueError\<close> is raised).  From
  31 March of any year the result is the last day of February of that year, the 29th in
  a leap year and the 28th otherwise.
\<close>
theorem month_subtraction_clamps:
  assumes "valid_datetime T"
  shows "parse_relative_time_string T ''1mo'' =
           (let y = (if month T = 1 then year T - 1 else year T);
                m = (if month T = 1 then 12 else month T - 1)
            in if y < 1 then Inl ValueError
               else Inr (T\<lparr>year := y, month := m,
                           day := (if day T \<le> days_in_month y m then day T
                                   else days_in_month y m)\<rparr>))
       \<and> (month T = 3 \<and> day T = 31 \<longrightarrow>
            parse_relative_time_string T ''1mo''
              = Inr (T\<lparr>month := 2, day := (if is_leap (year T) then 29 else 28)\<rparr>))"
proof -
  define k where "k = year T * 12 + (month T - 1) - 1"
  from assms have mo: "1 \<le> month T" "month T \<le> 12" and yr: "1 \<le> year T"
    by (simp_all add: valid_datetime_def MINYEAR_def)
  have ym: "k div 12 = (if month T = 1 then year T - 1 else year T)
      \<and> k mod 12 + 1 = (if month T = 1 then 12 else month T - 1)"
  proof (cases "month T = 1")
    case True
    then have "k = 12 * (year T - 1) + 11" by (simp add: k_def)
    from int_div_pos_eq [OF this] int_mod_pos_eq [OF this] True show ?thesis by simp
  next
    case False
    have "k = 12 * year T + (month T - 2)" by (simp add: k_def)
    from int_div_pos_eq [OF this] int_mod_pos_eq [OF this] False mo show ?thesis by simp
  qed
  have first: "parse_relative_time_string T ''1mo'' =
           (let y = (if month T = 1 then year T - 1 else year T);
                m = (if month T = 1 then 12 else month T - 1)
            in if y < 1 then Inl ValueError
               else Inr (T\<lparr>year := y, month := m,
                           day := (if day T \<le> days_in_month y m then day T
                                   else days_in_month y m)\<rparr>))"
    unfolding parse_1mo [OF assms] minus_months_def k_def [symmetric] Let_def
    using yr by (simp only: ym) (simp add: min_def)
  have "month T = 3 \<and> day T = 31 \<Longrightarrow>
      parse_relative_time_string T ''1mo''
        = Inr (T\<lparr>month := 2, day := (if is_leap (year T) then 29 else 28)\<rparr>)"
    unfolding first using yr by (simp add: days_in_month_def DAYS_IN_MONTH_def)
  with first show ?thesis by blast
qed

theorem month_subtraction_clamps_witness:
  "valid_datetime clock \<and> month clock = 3 \<and> day clock = 31
   \<and> parse_relative_time_string clock ''1mo'' = Inr (clock\<lparr>month := 2, day := 29\<rparr>)"
proof -
  have c: "month clock = 3 \<and> day clock = 31" "is_leap (year clock)"
    by (simp_all add: clock_def is_leap_def)
  from month_subtraction_clamps [OF valid_clock] c(1)
  have "parse_relative_time_string clock ''1mo''
      = Inr (clock\<lparr>month := 2, day := (if is_leap (year clock) then 29 else 28)\<rparr>)"
    by blast
  with c valid_clock show ?thesis by simp
qed

text \<open>
  Claim C4 says that a string with no recognizable token makes the parser fail with an
  error that \<open>fetch\<close> reports as a parameter error.  The code does not: \<^verbatim>\<open>"bogus"\<close> has no
  token, the parser returns the current instant and \<open>fetch\<close> goes on to fetch.
\<close>
theorem no_token_is_no_error_counterexample:
  "findall (lower ''bogus'') = []
   \<and> parse_relative_time_string clock ''bogus'' = Inr clock
   \<and> fetch eastern clock deliver_session ''chat'' None None (Some ''bogus'') False
       = Inr \<lparr>found_min_id = Some 48,
              stdout = [MessageLine ''hi'', MessageLine ''hi'', MessageLine ''hi''],
              uncaught = None\<rparr>"
  using findall_bogus parse_clock_bogus fetch_clock_bogus by simp

text \<open>
  Claim C4, amended.  For every input string with no recognizable token the parser
  returns the current instant unchanged and \<open>fetch\<close> raises no parameter error.  Where the
  parser does fail on a non-empty \<^verbatim>\<open>--since\<close> string, \<open>fetch\<close> raises
  \<^verbatim>\<open>click.BadParameter\<close> with the original string and the cause, whatever the client
  library would have delivered: no callback runs and nothing is printed.
\<close>
theorem no_token_resolves_to_now:
  "(findall (lower str) = [] \<longrightarrow>
      parse_relative_time_string T str = Inr T
      \<and> \<not> isl (fetch z T tg channel min_id limit (Some str) verbose))
   \<and> (bad \<noteq> [] \<and> parse_relative_time_string T bad = Inl e \<longrightarrow>
        fetch z T tg channel min_id limit (Some bad) verbose = Inl (BadParameter bad e))"
  using parse_none [of str T] resolve_since_no_token [of str T]
    fetch_resolved [of T "Some str" _ z tg channel min_id limit verbose]
    fetch_bad_parameter [of bad T e z tg channel min_id limit verbose]
  by simp

theorem no_token_resolves_to_now_witness:
  "findall (lower ''bogus'') = []
   \<and> parse_relative_time_string clock ''bogus'' = Inr clock
   \<and> \<not> isl (fetch eastern clock deliver_session ''chat'' None None (Some ''bogus'') True)
   \<and> parse_relative_time_string clock ''2500000000w'' = Inl OverflowError
   \<and> fetch eastern clock deliver_session ''chat'' None None (Some ''2500000000w'') True
       = Inl (BadParameter ''2500000000w'' OverflowError)"
proof -
  have ne: "''2500000000w'' \<noteq> []" by simp
  from no_token_resolves_to_now
    [where str = "''bogus''" and T = clock and z = eastern and tg = deliver_session
       and channel = "''chat''" and min_id = None and limit = None and verbose = True
       and bad = "''2500000000w''" and e = OverflowError]
  show ?thesis using findall_bogus parse_clock_big ne by blast
qed

text \<open>
  Claim C5 says that resolving a \<^verbatim>\<open>--since\<close> string never raises, a magnitude that
  \<^verbatim>\<open>int\<close> refuses being unreachable.  It can raise: a magnitude of 2500000000 weeks is
  beyond the range of \<^verbatim>\<open>timedelta\<close>, the parser raises \<^verbatim>\<open>OverflowError\<close> and \<open>fetch\<close>
  reports a parameter error; and a magnitude of 4301 digits is matched by the pattern
  and refused by \<^verbatim>\<open>int\<close> with \<^verbatim>\<open>ValueError\<close>, reported in the same way.
\<close>
theorem resolution_can_raise_counterexample:
  "parse_relative_time_string clock ''2500000000w'' = Inl OverflowError
   \<and> fetch eastern clock deliver_session ''chat'' None None (Some ''2500000000w'') False
       = Inl (BadParameter ''2500000000w'' OverflowError)
   \<and> findall (lower (long_magnitude @ ''d '')) = [(long_magnitude, ''d'')]
   \<and> py_int long_magnitude = Inl ValueError
   \<and> parse_relative_time_string clock (long_magnitude @ ''d '') = Inl ValueError
   \<and> fetch eastern clock deliver_session ''chat'' None None
         (Some (long_magnitude @ ''d '')) False
       = Inl (BadParameter (long_magnitude @ ''d '') ValueError)"
  using parse_clock_big fetch_clock_big findall_long_magnitude py_int_long_magnitude
    parse_long_magnitude [of clock]
    fetch_long_magnitude [of eastern clock deliver_session "''chat''" None None False]
  by simp

text \<open>
  Claim C5, amended.  For every \<^verbatim>\<open>--since\<close> string, every matched magnitude is a
  non-empty string of digits; \<^verbatim>\<open>int\<close> converts it, to a non-negative value, when it has
  at most 4300 digits, and raises \<^verbatim>\<open>ValueError\<close> when it has more.  When resolution
  raises, the exception is the one raised at some matched token, which is either the
  \<^verbatim>\<open>ValueError\<close> of \<^verbatim>\<open>int\<close> on a magnitude of more than 4300 digits or an exception of
  the date arithmetic on a magnitude that was converted.
  With \<^verbatim>\<open>--since "bogus"\<close> nothing is raised during resolution: the expression resolves
  to the current instant and \<open>fetch\<close> raises no parameter error.
\<close>
theorem magnitudes_always_convert:
  "(\<forall>(v, u) \<in> set (findall (lower s)).
        digits v
      \<and> (length v \<le> 4300 \<longrightarrow> (\<exists>n. py_int v = Inr n \<and> 0 \<le> n))
      \<and> (4300 < length v \<longrightarrow> py_int v = Inl ValueError))
   \<and> (parse_relative_time_string T s = Inl e \<longrightarrow>
        (\<exists>t v u. (v, u) \<in> set (findall (lower s)) \<and> apply_token t (v, u) = Inl e
            \<and> ((4300 < length v \<and> py_int v = Inl ValueError \<and> e = ValueError)
               \<or> (\<exists>n. length v \<le> 4300 \<and> py_int v = Inr n \<and> 0 \<le> n))))
   \<and> parse_relative_time_string T ''bogus'' = Inr T
   \<and> resolve_since T (Some ''bogus'') = Inr (Some T)
   \<and> \<not> isl (fetch z T tg channel min_id limit (Some ''bogus'') verbose)"
proof (intro conjI impI)
  have conv: "digits v
      \<and> (length v \<le> 4300 \<longrightarrow> (\<exists>n. py_int v = Inr n \<and> 0 \<le> n))
      \<and> (4300 < length v \<longrightarrow> py_int v = Inl ValueError)"
    if "(v, u) \<in> set (findall (lower s))" for v u
  proof -
    from findall_groups [OF that] have d: "digits v" by simp
    from py_int_digits [OF d] py_int_long [OF d] d show ?thesis
      by (simp add: MAX_STR_DIGITS_def)
  qed
  then show "\<forall>(v, u) \<in> set (findall (lower s)).
        digits v
      \<and> (length v \<le> 4300 \<longrightarrow> (\<exists>n. py_int v = Inr n \<and> 0 \<le> n))
      \<and> (4300 < length v \<longrightarrow> py_int v = Inl ValueError)"
    by blast
  show "parse_relative_time_string T ''bogus'' = Inr T"
    by (rule parse_none [OF findall_bogus])
  show r: "resolve_since T (Some ''bogus'') = Inr (Some T)"
    using resolve_since_no_token [OF findall_bogus, of T] by simp
  show "\<not> isl (fetch z T tg channel min_id limit (Some ''bogus'') verbose)"
    by (rule fetch_resolved [OF r])
  assume "parse_relative_time_string T s = Inl e"
  then have "apply_tokens T (findall (lower s)) = Inl e"
    by (simp add: parse_relative_time_string_def)
  from apply_tokens_error [OF this] obtain t v u
    where p: "(v, u) \<in> set (findall (lower s))" "apply_token t (v, u) = Inl e"
    by auto
  note c = conv [OF p(1)]
  have "(4300 < length v \<and> py_int v = Inl ValueError \<and> e = ValueError)
      \<or> (\<exists>n. length v \<le> 4300 \<and> py_int v = Inr n \<and> 0 \<le> n)"
  proof (cases "length v \<le> 4300")
    case True
    with c show ?thesis by blast
  next
    case False
    with c have i: "py_int v = Inl ValueError" by simp
    from apply_token_int_error [OF i, of t u] p(2) have "e = ValueError" by simp
    with False i show ?thesis by simp
  qed
  with p show "\<exists>t v u. (v, u) \<in> set (findall (lower s)) \<and> apply_token t (v, u) = Inl e
            \<and> ((4300 < length v \<and> py_int v = Inl ValueError \<and> e = ValueError)
               \<or> (\<exists>n. length v \<le> 4300 \<and> py_int v = Inr n \<and> 0 \<le> n))"
    by blast
qed

theorem magnitudes_always_convert_witness:
  "(\<exists>n. py_int ''2500000000'' = Inr n \<and> 0 \<le> n)
   \<and> parse_relative_time_string clock ''2500000000w'' = Inl OverflowError
   \<and> (\<exists>t n. py_int ''2500000000'' = Inr n \<and> 0 \<le> n
         \<and> apply_token t (''2500000000'', ''w'') = Inl OverflowError)
   \<and> digits long_magnitude \<and> length long_magnitude = 4301
   \<and> py_int long_magnitude = Inl ValueError
   \<and> parse_relative_time_string clock (long_magnitude @ ''d '') = Inl ValueError
   \<and> (\<exists>t. apply_token t (long_magnitude, ''d'') = Inl ValueError)
   \<and> parse_relative_time_string clock ''bogus'' = Inr clock
   \<and> \<not> isl (fetch eastern clock deliver_session ''chat'' None None (Some ''bogus'') True)"
proof -
  note th = magnitudes_always_convert
    [where s = "''2500000000w''" and T = clock and e = OverflowError and z = eastern
       and tg = deliver_session and channel = "''chat''" and min_id = None and limit = None
       and verbose = True]
  note tl = magnitudes_always_convert
    [where s = "long_magnitude @ ''d ''" and T = clock and e = ValueError and z = eastern
       and tg = deliver_session and channel = "''chat''" and min_id = None and limit = None
       and verbose = True]
  have short: "length ''2500000000'' \<le> 4300" "\<not> 4300 < length ''2500000000''" by simp_all
  have long: "4300 < length long_magnitude" "\<not> length long_magnitude \<le> 4300"
    by (simp_all add: digits_long_magnitude)
  from th have "\<forall>(v, u) \<in> set (findall (lower ''2500000000w'')).
        digits v
      \<and> (length v \<le> 4300 \<longrightarrow> (\<exists>n. py_int v = Inr n \<and> 0 \<le> n))
      \<and> (4300 < length v \<longrightarrow> py_int v = Inl ValueError)"
    by blast
  then have a: "\<exists>n. py_int ''2500000000'' = Inr n \<and> 0 \<le> n"
    by (simp add: findall_big)
  from th parse_clock_big
  have "\<exists>t v u. (v, u) \<in> set (findall (lower ''2500000000w''))
            \<and> apply_token t (v, u) = Inl OverflowError
            \<and> ((4300 < length v \<and> py_int v = Inl ValueError \<and> OverflowError = ValueError)
               \<or> (\<exists>n. length v \<le> 4300 \<and> py_int v = Inr n \<and> 0 \<le> n))"
    by blast
  then have b: "\<exists>t n. py_int ''2500000000'' = Inr n \<and> 0 \<le> n
         \<and> apply_token t (''2500000000'', ''w'') = Inl OverflowError"
    by (simp add: findall_big) blast
  from tl have "\<forall>(v, u) \<in> set (findall (lower (long_magnitude @ ''d ''))).
        digits v
      \<and> (length v \<le> 4300 \<longrightarrow> (\<exists>n. py_int v = Inr n \<and> 0 \<le> n))
      \<and> (4300 < length v \<longrightarrow> py_int v = Inl ValueError)"
    by blast
  then have c: "digits long_magnitude" "py_int long_magnitude = Inl ValueError"
    using long by (simp_all add: findall_long_magnitude)
  from tl parse_long_magnitude [of clock]
  have "\<exists>t v u. (v, u) \<in> set (findall (lower (long_magnitude @ ''d '')))
            \<and> apply_token t (v, u) = Inl ValueError
            \<and> ((4300 < length v \<and> py_int v = Inl ValueError \<and> ValueError = ValueError)
               \<or> (\<exists>n. length v \<le> 4300 \<and> py_int v = Inr n \<and> 0 \<le> n))"
    by blast
  then have d: "\<exists>t. apply_token t (long_magnitude, ''d'') = Inl ValueError"
    by (auto simp: findall_long_magnitude)
  from th have f: "parse_relative_time_string clock ''bogus'' = Inr clock"
    "\<not> isl (fetch eastern clock deliver_session ''chat'' None None (Some ''bogus'') True)"
    by blast+
  from a b c d f parse_clock_big parse_long_magnitude [of clock] digits_long_magnitude(2)
  show ?thesis by blast
qed





text \<open>
  Claim C8.  The minimum observed identifier starts unset; after any number \<open>k\<close> of
  callbacks it is the least identifier among the messages handed to the per-message
  callback so far (unset when there is none), whatever the order of delivery; the value
  a completed \<open>fetch\<close> ends with is the least identifier of its whole session, and a
  session delivering the identifiers 50, 48, 52 in this order ends with 48.
\<close>
theorem min_observed_id_invariant:
  "found_min_id (foldl (callback verbose) \<lparr>found_min_id = None, stdout = []\<rparr> [])
      = None
   \<and> found_min_id (foldl (callback verbose) \<lparr>found_min_id = None, stdout = []\<rparr> (take k ds))
      = min_id_of (processed_ids (take k ds))
   \<and> (fetch z T tg channel min_id limit since verbose = Inr st \<longrightarrow>
        (\<exists>since_date. resolve_since T since = Inr since_date
           \<and> found_min_id st = min_id_of (processed_ids (tg channel min_id limit since_date))))
   \<and> (msg_id a = 50 \<and> msg_id b = 48 \<and> msg_id c = 52 \<longrightarrow>
        found_min_id (foldl (callback verbose) \<lparr>found_min_id = None, stdout = []\<rparr>
          [Processed a, Processed b, Processed c]) = Some 48)
   \<and> (set (processed_ids xs) = set (processed_ids ys) \<longrightarrow>
        found_min_id (foldl (callback verbose) \<lparr>found_min_id = None, stdout = []\<rparr> xs)
        = found_min_id (foldl (callback verbose) \<lparr>found_min_id = None, stdout = []\<rparr> ys))"
proof (intro conjI impI)
  show "found_min_id (foldl (callback verbose) \<lparr>found_min_id = None, stdout = []\<rparr> []) = None"
    by simp
  show "found_min_id (foldl (callback verbose) \<lparr>found_min_id = None, stdout = []\<rparr> (take k ds))
      = min_id_of (processed_ids (take k ds))"
    by (rule found_min_id_foldl)
next
  assume f: "fetch z T tg channel min_id limit since verbose = Inr st"
  then obtain sd where sd: "resolve_since T since = Inr sd"
    by (cases "resolve_since T since") (simp_all add: fetch_def)
  with f have "found_min_id st
      = found_min_id (foldl (callback verbose) \<lparr>found_min_id = None, stdout = []\<rparr>
          (tg channel min_id limit sd))"
    by (auto simp: fetch_def Let_def split: if_splits sum.splits)
  with sd show "\<exists>since_date. resolve_since T since = Inr since_date
           \<and> found_min_id st = min_id_of (processed_ids (tg channel min_id limit since_date))"
    by (simp add: found_min_id_foldl)
next
  assume "msg_id a = 50 \<and> msg_id b = 48 \<and> msg_id c = 52"
  then show "found_min_id (foldl (callback verbose) \<lparr>found_min_id = None, stdout = []\<rparr>
          [Processed a, Processed b, Processed c]) = Some 48"
    by (simp add: message_processor_def Let_def)
next
  assume "set (processed_ids xs) = set (processed_ids ys)"
  then have "min_id_of (processed_ids xs) = min_id_of (processed_ids ys)"
    by (auto simp: min_id_of_def)
  then show "found_min_id (foldl (callback verbose) \<lparr>found_min_id = None, stdout = []\<rparr> xs)
        = found_min_id (foldl (callback verbose) \<lparr>found_min_id = None, stdout = []\<rparr> ys)"
    by (simp add: found_min_id_foldl)
qed

theorem min_observed_id_invariant_witness:
  "found_min_id (foldl (callback False) \<lparr>found_min_id = None, stdout = []\<rparr> session) = Some 48
   \<and> found_min_id (foldl (callback False) \<lparr>found_min_id = None, stdout = []\<rparr>
        (take 2 [Processed (msg 50), Failed (msg 7), Processed (msg 48)])) = Some 50
   \<and> (\<exists>st. fetch eastern clock deliver_session ''chat'' None None None False = Inr st
          \<and> found_min_id st = Some 48)
   \<and> found_min_id (foldl (callback False) \<lparr>found_min_id = None, stdout = []\<rparr>
        [Processed (msg 52), Processed (msg 50), Processed (msg 48)])
     = found_min_id (foldl (callback False) \<lparr>found_min_id = None, stdout = []\<rparr> session)"
proof -
  let ?st = "foldl (callback False) \<lparr>found_min_id = None, stdout = []\<rparr> session"
  have ids: "msg_id (msg 50) = 50 \<and> msg_id (msg 48) = 48 \<and> msg_id (msg 52) = 52"
    by (simp add: msg_def)
  have sets: "set (processed_ids [Processed (msg 52), Processed (msg 50), Processed (msg 48)])
      = set (processed_ids session)"
    by (auto simp: processed_ids_def session_def)
  have pre: "min_id_of (processed_ids
       (take 2 [Processed (msg 50), Failed (msg 7), Processed (msg 48)])) = Some 50"
    by (simp add: processed_ids_def min_id_of_def msg_def)
  have all: "min_id_of (processed_ids session) = Some 48"
    by (simp add: processed_ids_def min_id_of_def msg_def session_def)
  have res: "resolve_since clock None = Inr None"
    by (simp add: resolve_since_def)
  let ?out = "\<lparr>found_min_id = found_min_id ?st, stdout = stdout ?st, uncaught = None\<rparr>"
  have run: "fetch eastern clock deliver_session ''chat'' None None None False = Inr ?out"
    by (simp add: fetch_def res truthy_def deliver_session_def Let_def)
  from min_observed_id_invariant
    [where verbose = False and k = 2
       and ds = "[Processed (msg 50), Failed (msg 7), Processed (msg 48)]"
       and T = clock and tg = deliver_session and channel = "''chat''"
       and min_id = None and limit = None and since = None and st = ?out
       and z = eastern
       and a = "msg 50" and b = "msg 48" and c = "msg 52"
       and xs = "[Processed (msg 52), Processed (msg 50), Processed (msg 48)]"
       and ys = session]
  show ?thesis
    using ids sets pre all run res
    by (simp add: session_def [symmetric] deliver_session_def)
qed

text \<open>
  Claim C9 says that the summary line is printed if and only if both \<^verbatim>\<open>--since\<close> and
  \<^verbatim>\<open>--verbose\<close> were given.  With \<^verbatim>\<open>--since ""\<close> and \<^verbatim>\<open>--verbose\<close> both are given and
  no summary is printed: the empty string is false in the test \<^verbatim>\<open>if since and verbose\<close>.
\<close>
theorem empty_since_prints_no_summary_counterexample:
  "fetch eastern clock silent ''chat'' None None (Some '''') True
     = Inr \<lparr>found_min_id = None, stdout = [], uncaught = None\<rparr>"
  by (rule fetch_clock_empty_since)

text \<open>
  Claim C9, amended.  After the fetch loop completes, when \<^verbatim>\<open>--since\<close> was given with a
  non-empty string and \<^verbatim>\<open>--verbose\<close> was given, the since-timestamp is resolved and,
  whenever it has a local time, one summary line, made of the since-timestamp localized
  (moved to the local zone) and the minimum observed identifier, is printed as the last
  line and the command ends normally.  When \<^verbatim>\<open>--since\<close> is absent or empty, or
  \<^verbatim>\<open>--verbose\<close> is absent, no summary line is printed and the command ends normally.
  The local time is that of the since-timestamp: the same instant, read with the offset
  of the local zone.
\<close>
theorem summary_line_printed_iff:
  assumes "fetch z T tg channel min_id limit since verbose = Inr st"
  shows "(since \<noteq> None \<and> since \<noteq> Some [] \<and> verbose \<longrightarrow>
           (\<exists>t. parse_relative_time_string T (the since) = Inr t
              \<and> (\<forall>local. astimezone z t = Inr local \<longrightarrow>
                    uncaught st = None
                  \<and> stdout st \<noteq> []
                  \<and> last (stdout st) = SummaryLine local (found_min_id st)
                  \<and> filter is_summary (stdout st) = [SummaryLine local (found_min_id st)]
                  \<and> (valid_datetime T \<longrightarrow>
                        valid_datetime local
                      \<and> instant local = instant t + z t * 1000000))))
       \<and> (\<not> (since \<noteq> None \<and> since \<noteq> Some [] \<and> verbose) \<longrightarrow>
            filter is_summary (stdout st) = [] \<and> uncaught st = None)"
proof -
  from assms obtain d where d: "resolve_since T since = Inr d"
    by (cases "resolve_since T since") (simp_all add: fetch_def)
  define st0 where "st0 = foldl (callback verbose) \<lparr>found_min_id = None, stdout = []\<rparr>
      (tg channel min_id limit d)"
  have none: "filter is_summary (stdout st0) = []"
    by (simp add: st0_def summary_foldl)
  have tr: "truthy since = (since \<noteq> None \<and> since \<noteq> Some [])"
    by (cases since) (simp_all add: truthy_def)
  show ?thesis
  proof (cases "since \<noteq> None \<and> since \<noteq> Some [] \<and> verbose")
    case False
    with assms d tr
    have "st = \<lparr>found_min_id = found_min_id st0, stdout = stdout st0, uncaught = None\<rparr>"
      by (auto simp: fetch_def Let_def st0_def)
    with none have "filter is_summary (stdout st) = [] \<and> uncaught st = None" by simp
    with False show ?thesis by blast
  next
    case True
    then obtain s where s: "since = Some s" "s \<noteq> []" by (cases since) auto
    with d obtain t where t: "parse_relative_time_string T s = Inr t" "d = Some t"
      by (cases "parse_relative_time_string T s") (simp_all add: resolve_since_def)
    have "uncaught st = None
        \<and> stdout st \<noteq> []
        \<and> last (stdout st) = SummaryLine local (found_min_id st)
        \<and> filter is_summary (stdout st) = [SummaryLine local (found_min_id st)]
        \<and> (valid_datetime T \<longrightarrow>
              valid_datetime local \<and> instant local = instant t + z t * 1000000)"
      if l: "astimezone z t = Inr local" for local
    proof -
      from assms d tr True t l
      have st: "st = \<lparr>found_min_id = found_min_id st0,
                      stdout = stdout st0 @ [SummaryLine local (found_min_id st0)],
                      uncaught = None\<rparr>"
        by (simp add: fetch_def Let_def st0_def)
      have "valid_datetime local \<and> instant local = instant t + z t * 1000000"
        if T: "valid_datetime T"
      proof -
        from t(1) have "apply_tokens T (findall (lower s)) = Inr t"
          by (simp add: parse_relative_time_string_def)
        from apply_tokens_le [OF T findall_groups_all this] have "valid_datetime t" by simp
        from astimezone_valid [OF this l] show ?thesis .
      qed
      with st none show ?thesis by (simp add: is_summary_def)
    qed
    with True s t show ?thesis by auto
  qed
qed

theorem summary_line_printed_iff_witness:
  "fetch eastern clock deliver_session ''chat'' None None (Some ''1w'') True
     = Inr \<lparr>found_min_id = Some 48,
            stdout = [VerboseLine 50 (date (msg 50)) ''Unknown'' ''hi'',
                      VerboseLine 48 (date (msg 48)) ''Unknown'' ''hi'',
                      VerboseLine 52 (date (msg 52)) ''Unknown'' ''hi'',
                      SummaryLine (clock\<lparr>day := 24, hour := 7\<rparr>) (Some 48)],
            uncaught = None\<rparr>
   \<and> parse_relative_time_string clock ''1w'' = Inr (clock\<lparr>day := 24\<rparr>)
   \<and> astimezone eastern (clock\<lparr>day := 24\<rparr>) = Inr (clock\<lparr>day := 24, hour := 7\<rparr>)
   \<and> filter is_summary
        [VerboseLine 50 (date (msg 50)) ''Unknown'' ''hi'',
         VerboseLine 48 (date (msg 48)) ''Unknown'' ''hi'',
         VerboseLine 52 (date (msg 52)) ''Unknown'' ''hi'',
         SummaryLine (clock\<lparr>day := 24, hour := 7\<rparr>) (Some 48)]
       = [SummaryLine (clock\<lparr>day := 24, hour := 7\<rparr>) (Some 48)]
   \<and> instant (clock\<lparr>day := 24, hour := 7\<rparr>) = instant (clock\<lparr>day := 24\<rparr>) - 18000000000
   \<and> fetch eastern clock deliver_session ''chat'' None None (Some ''1w'') False
     = Inr \<lparr>found_min_id = Some 48,
            stdout = [MessageLine ''hi'', MessageLine ''hi'', MessageLine ''hi''],
            uncaught = None\<rparr>
   \<and> filter is_summary [MessageLine ''hi'', MessageLine ''hi'', MessageLine ''hi''] = []"
proof -
  from summary_line_printed_iff [OF fetch_clock_1w_verbose] valid_clock
  have "instant (clock\<lparr>day := 24, hour := 7\<rparr>)
      = instant (clock\<lparr>day := 24\<rparr>) + eastern (clock\<lparr>day := 24\<rparr>) * 1000000"
    by (simp add: parse_clock_1w localize_week_before is_summary_def)
  then have i: "instant (clock\<lparr>day := 24, hour := 7\<rparr>)
      = instant (clock\<lparr>day := 24\<rparr>) - 18000000000"
    by (simp add: eastern_def)
  have a: "filter is_summary
        [VerboseLine 50 (date (msg 50)) ''Unknown'' ''hi'',
         VerboseLine 48 (date (msg 48)) ''Unknown'' ''hi'',
         VerboseLine 52 (date (msg 52)) ''Unknown'' ''hi'',
         SummaryLine (clock\<lparr>day := 24, hour := 7\<rparr>) (Some 48)]
       = [SummaryLine (clock\<lparr>day := 24, hour := 7\<rparr>) (Some 48)]"
    by (simp add: is_summary_def)
  from summary_line_printed_iff [OF fetch_clock_1w_plain]
  have b: "filter is_summary [MessageLine ''hi'', MessageLine ''hi'', MessageLine ''hi''] = []"
    by simp
  from a b i fetch_clock_1w_verbose fetch_clock_1w_plain parse_clock_1w localize_week_before
  show ?thesis by blast
qed

text \<open>
  Claim C10.  For every input string and every fixed current instant \<open>T\<close>, a timestamp
  returned by \<^verbatim>\<open>parse_relative_time_string\<close> is less than or equal to \<open>T\<close> in the
  order of \<^verbatim>\<open>datetime\<close>: every magnitude is non-negative and every unit is subtracted.
\<close>
theorem parse_never_after_now:
  assumes "valid_datetime T" "parse_relative_time_string T s = Inr T'"
  shows "datetime_le T' T"
  using apply_tokens_le [OF assms(1) findall_groups_all, of "lower s" T'] assms(2)
  by (simp add: parse_relative_time_string_def)

theorem parse_never_after_now_witness:
  "valid_datetime clock
   \<and> parse_relative_time_string clock ''1w 2d'' = Inr (clock\<lparr>day := 22\<rparr>)
   \<and> datetime_le (clock\<lparr>day := 22\<rparr>) clock"
  using parse_never_after_now [OF valid_clock parse_clock_1w_2d] valid_clock parse_clock_1w_2d
  by simp

end
